theory Spec2Isabelle
  imports Complex_Main "HOL-Library.Multiset"
begin

section \<open>Python values used by both engines\<close>

text \<open>
  The engines of \<^verbatim>\<open>backend/sales_attribution.py\<close> and \<^verbatim>\<open>backend/alerts.py\<close> are
  embedded as state-passing functions. Python \<^verbatim>\<open>int\<close> is \<^typ>\<open>int\<close>. Timestamps and
  durations are Python floats; they are modelled as exact \<^typ>\<open>real\<close> numbers, so the
  rounding of float subtraction and multiplication is not part of the model: model and
  source agree on a comparison \<^verbatim>\<open>a - b < c\<close> whenever the difference of the two floats is
  itself a float, as it is for timestamps in whole seconds up to \<open>2 ^ 53\<close>. Logging is
  left out. The raises of the engines' own statements are branches returning \<open>Inl\<close>:
  indexing an empty list, creating a deque, building the mail notifier, and taking the
  length of a missing threshold map. The tail of \<^verbatim>\<open>_process_alert\<close> that formats the
  timestamp, sends the mail and writes to the store is outside the model.
\<close>

datatype error = IndexError | ValueError | TypeError | OverflowError

text \<open>
  A \<^verbatim>\<open>Dict[str, v]\<close> argument (an inventory, the threshold table, the freshness state) is
  an association list in insertion order. A dict has no repeated key; every function
  below reads the list through \<open>map_of\<close> and \<open>dict_keys\<close>, so a list with a repeated
  key stands for the dict of its first bindings.
\<close>

type_synonym 'v dict = "(string \<times> 'v) list"

definition dict_get :: "'v dict \<Rightarrow> string \<Rightarrow> 'v \<Rightarrow> 'v" where
  "dict_get d k dflt = (case map_of d k of None \<Rightarrow> dflt | Some v \<Rightarrow> v)"

definition dict_keys :: "'v dict \<Rightarrow> string list" where
  "dict_keys d = remdups (map fst d)"

definition dict_items :: "'v dict \<Rightarrow> (string \<times> 'v) list" where
  "dict_items d = map (\<lambda>k. (k, the (map_of d k))) (dict_keys d)"

text \<open>\<^verbatim>\<open>sum(inventory.values())\<close>\<close>

definition sum_values :: "int dict \<Rightarrow> int" where
  "sum_values d = sum_list (map snd (dict_items d))"

text \<open>
  \<^verbatim>\<open>collections.deque(maxlen=n)\<close>: creation raises \<^verbatim>\<open>ValueError\<close> for a negative
  \<open>n\<close> and \<^verbatim>\<open>OverflowError\<close> for an \<open>n\<close> above \<^verbatim>\<open>sys.maxsize\<close>, which is
  \<open>2 ^ 63 - 1\<close> on the 64-bit interpreter the system runs on; \<^verbatim>\<open>append\<close> adds on the
  right and then drops the leftmost element when the length exceeds \<open>n\<close>. The oldest
  element is the head of the list.
\<close>

definition deque_new :: "int \<Rightarrow> error + 'a list" where
  "deque_new maxlen =
     (if maxlen < 0 then Inl ValueError
      else if maxlen > 9223372036854775807 then Inl OverflowError
      else Inr [])"

definition deque_append :: "int \<Rightarrow> 'a list \<Rightarrow> 'a \<Rightarrow> 'a list" where
  "deque_append maxlen q x =
     (let q' = q @ [x] in if maxlen < int (length q') then tl q' else q')"

text \<open>The slice \<^verbatim>\<open>xs[i:]\<close>: a negative \<open>i\<close> counts from the end, \<^verbatim>\<open>xs[-0:]\<close> is \<open>xs\<close>.\<close>

definition slice_from :: "int \<Rightarrow> 'a list \<Rightarrow> 'a list" where
  "slice_from i xs =
     (if i < 0 then drop (length xs - nat (- i)) xs else drop (nat i) xs)"

section \<open>Sales attribution engine\<close>

type_synonym inventory = "int dict"

text \<open>The sale event dictionaries built in \<^verbatim>\<open>_detect_attributed_sales\<close>.\<close>

record sale_event =
  product_name :: string
  quantity_delta :: int
  inventory_before :: int
  inventory_after :: int
  timestamp_utc :: real
  validated :: bool

text \<open>
  The attributes of \<^verbatim>\<open>SalesAttributionEngine\<close>. \<open>snapshot_history\<close> is the deque of
  \<open>(timestamp, inventory)\<close> pairs, newest last, whose \<open>maxlen\<close> is
  \<open>confirm_intervals + 1\<close>. \<open>pending_decreases\<close> is a \<^verbatim>\<open>defaultdict(list)\<close>: a key
  can be present with an empty list, which \<open>Some []\<close> records.
\<close>

record engine =
  confirm_intervals :: int
  min_delta_threshold :: int
  cooldown_seconds :: real
  snapshot_interval :: real
  snapshot_history :: "(real \<times> inventory) list"
  last_sale_time :: "string \<rightharpoonup> real"
  pending_decreases :: "string \<rightharpoonup> (real \<times> int) list"
  total_sales_detected :: int
  sales_by_product :: "string \<rightharpoonup> int"
  false_positives_filtered :: int

text \<open>
  \<^verbatim>\<open>SalesAttributionEngine.__init__\<close>: the arguments are stored as given; the only
  statement that can raise is the creation of the history deque.
\<close>

definition SalesAttributionEngine_init :: "int \<Rightarrow> int \<Rightarrow> real \<Rightarrow> real \<Rightarrow> error + engine" where
  "SalesAttributionEngine_init ci mdt cd si =
     (case deque_new (ci + 1) of
        Inl err \<Rightarrow> Inl err
      | Inr h \<Rightarrow>
          Inr \<lparr>confirm_intervals = ci, min_delta_threshold = mdt, cooldown_seconds = cd,
               snapshot_interval = si, snapshot_history = h, last_sale_time = Map.empty,
               pending_decreases = Map.empty, total_sales_detected = 0,
               sales_by_product = Map.empty, false_positives_filtered = 0\<rparr>)"

text \<open>\<^verbatim>\<open>_validate_decrease\<close>; \<^verbatim>\<open>counts[0]\<close> raises on an empty list.\<close>

definition validate_decrease :: "engine \<Rightarrow> string \<Rightarrow> real \<Rightarrow> error + bool" where
  "validate_decrease e pn current_timestamp =
     (if int (length (snapshot_history e)) < confirm_intervals e + 1 then Inr False
      else
        let recent_snapshots = slice_from (- (confirm_intervals e + 1)) (snapshot_history e);
            counts = map (\<lambda>(_, inv). dict_get inv pn 0) recent_snapshots
        in case counts of
             [] \<Rightarrow> Inl IndexError
           | initial_count # later \<Rightarrow>
               Inr (list_all (\<lambda>count. \<not> count > initial_count \<and> count \<noteq> initial_count) later))"

text \<open>The trend loop of \<^verbatim>\<open>_validate_total_decrease\<close>: false at the first \<open>totals[i] >= totals[i-1]\<close>.\<close>

fun consistent_decrease :: "int list \<Rightarrow> bool" where
  "consistent_decrease (a # b # rest) = (if b \<ge> a then False else consistent_decrease (b # rest))"
| "consistent_decrease _ = True"

text \<open>\<^verbatim>\<open>_validate_total_decrease\<close>, returning the engine with its counter updated.\<close>

definition validate_total_decrease :: "engine \<Rightarrow> int \<Rightarrow> real \<Rightarrow> bool \<times> engine" where
  "validate_total_decrease e total_delta current_timestamp =
     (if \<bar>total_delta\<bar> < min_delta_threshold e * 2
      then (False, e\<lparr>false_positives_filtered := false_positives_filtered e + 1\<rparr>)
      else if int (length (snapshot_history e)) < confirm_intervals e + 1 then (False, e)
      else
        let recent_snapshots = slice_from (- confirm_intervals e - 1) (snapshot_history e);
            totals = map (\<lambda>(_, inv). sum_values inv) recent_snapshots
        in if consistent_decrease totals then (True, e)
           else (False, e\<lparr>false_positives_filtered := false_positives_filtered e + 1\<rparr>))"

text \<open>\<^verbatim>\<open>SalesAttributionEngine._check_cooldown\<close>\<close>

definition check_cooldown :: "engine \<Rightarrow> string \<Rightarrow> real \<Rightarrow> bool" where
  "check_cooldown e pn current_timestamp =
     (case last_sale_time e pn of
        None \<Rightarrow> True
      | Some t \<Rightarrow> \<not> (current_timestamp - t < cooldown_seconds e))"

text \<open>\<^verbatim>\<open>_cleanup_pending_decreases\<close>: every key is filtered by age, empty lists are deleted.\<close>

definition cleanup_pending_decreases :: "engine \<Rightarrow> real \<Rightarrow> engine" where
  "cleanup_pending_decreases e current_timestamp =
     (let max_age = snapshot_interval e * (real_of_int (confirm_intervals e) + 2) in
      e\<lparr>pending_decreases := (\<lambda>pn.
           case pending_decreases e pn of
             None \<Rightarrow> None
           | Some q \<Rightarrow>
               (let q' = filter (\<lambda>(ts, delta). current_timestamp - ts < max_age) q
                in if q' = [] then None else Some q'))\<rparr>)"

text \<open>
  The body of the loop \<^verbatim>\<open>for product_name in all_products\<close> of
  \<^verbatim>\<open>_detect_attributed_sales\<close>, on the pair of the events collected so far and the engine.
\<close>

definition product_body ::
  "real \<Rightarrow> inventory \<Rightarrow> inventory \<Rightarrow> string \<Rightarrow> sale_event list \<times> engine
     \<Rightarrow> error + (sale_event list \<times> engine)" where
  "product_body current_timestamp current_inventory previous_inventory pn acc =
     (case acc of (sales_events, e) \<Rightarrow>
      let current_count = dict_get current_inventory pn 0;
          previous_count = dict_get previous_inventory pn 0;
          delta = current_count - previous_count;
          pd = pending_decreases e;
          pd1 =
            (if delta < 0 \<and> \<bar>delta\<bar> \<ge> min_delta_threshold e
             then pd(pn \<mapsto> (case pd pn of None \<Rightarrow> [] | Some q \<Rightarrow> q) @ [(current_timestamp, delta)])
             else if delta = 0 \<and> pd pn \<noteq> None then pd
             else if delta > 0 then (if pd pn \<noteq> None then pd(pn \<mapsto> []) else pd)
             else pd);
          e1 = e\<lparr>pending_decreases := pd1\<rparr>
      in (case pd1 pn of
           Some ((first_ts, first_delta) # later_entries) \<Rightarrow>
             (case validate_decrease e1 pn current_timestamp of
                Inl err \<Rightarrow> Inl err
              | Inr valid \<Rightarrow>
                  if valid \<and> check_cooldown e1 pn current_timestamp then
                    let quantity_sold = (if delta < 0 then \<bar>delta\<bar> else \<bar>first_delta\<bar>);
                        sale_event =
                          \<lparr>product_name = pn, quantity_delta = quantity_sold,
                           inventory_before =
                             (if delta = 0 then previous_count + quantity_sold else previous_count),
                           inventory_after = current_count,
                           timestamp_utc = current_timestamp, validated = True\<rparr>;
                        lst = (last_sale_time e1)(pn \<mapsto> current_timestamp);
                        pd2 = pd1(pn \<mapsto> [])
                    in Inr (sales_events @ [sale_event],
                            e1\<lparr>last_sale_time := lst, pending_decreases := pd2\<rparr>)
                  else Inr (sales_events, e1))
         | _ \<Rightarrow> Inr (sales_events, e1)))"

text \<open>
  A \<^verbatim>\<open>for\<close> loop over a list of items whose body can raise: the first error ends
  the loop, as the exception would.
\<close>

fun for_each :: "('k \<Rightarrow> 's \<Rightarrow> error + 's) \<Rightarrow> 'k list \<Rightarrow> 's \<Rightarrow> error + 's" where
  "for_each body [] s = Inr s"
| "for_each body (k # ks) s =
     (case body k s of Inl err \<Rightarrow> Inl err | Inr s' \<Rightarrow> for_each body ks s')"

text \<open>
  \<^verbatim>\<open>set(current_inventory.keys()) | set(previous_inventory.keys())\<close>. Python leaves the
  iteration order of a set open; the model visits the products in the order of this
  list, each once.
\<close>

definition all_products :: "inventory \<Rightarrow> inventory \<Rightarrow> string list" where
  "all_products current_inventory previous_inventory =
     remdups (dict_keys current_inventory @ dict_keys previous_inventory)"

text \<open>The unattributed fallback at the end of \<^verbatim>\<open>_detect_attributed_sales\<close>.\<close>

definition unattributed_fallback ::
  "real \<Rightarrow> inventory \<Rightarrow> inventory \<Rightarrow> sale_event list \<times> engine \<Rightarrow> sale_event list \<times> engine" where
  "unattributed_fallback current_timestamp current_inventory previous_inventory acc =
     (case acc of (sales_events, e) \<Rightarrow>
      let total_current = sum_values current_inventory;
          total_previous = sum_values previous_inventory;
          total_delta = total_current - total_previous
      in if total_delta < 0 \<and> sales_events = [] then
           (case validate_total_decrease e total_delta current_timestamp of
              (True, e') \<Rightarrow>
                (sales_events @
                   [\<lparr>product_name = ''Unknown'', quantity_delta = \<bar>total_delta\<bar>,
                     inventory_before = total_previous, inventory_after = total_current,
                     timestamp_utc = current_timestamp, validated = False\<rparr>], e')
            | (False, e') \<Rightarrow> (sales_events, e'))
         else (sales_events, e))"

text \<open>
  \<^verbatim>\<open>_detect_attributed_sales\<close>; \<^verbatim>\<open>snapshot_history[-1]\<close> and \<^verbatim>\<open>[-2]\<close> raise when the
  history holds fewer than two snapshots.
\<close>

definition detect_attributed_sales :: "engine \<Rightarrow> real \<Rightarrow> error + (sale_event list \<times> engine)" where
  "detect_attributed_sales e current_timestamp =
     (case rev (snapshot_history e) of
        (current_time, current_inventory) # (previous_time, previous_inventory) # older \<Rightarrow>
          (case for_each (product_body current_timestamp current_inventory previous_inventory)
                  (all_products current_inventory previous_inventory) ([], e) of
             Inl err \<Rightarrow> Inl err
           | Inr (sales_events, e1) \<Rightarrow>
               Inr (unattributed_fallback current_timestamp current_inventory previous_inventory
                      (sales_events, cleanup_pending_decreases e1 current_timestamp)))
      | _ \<Rightarrow> Inl IndexError)"

text \<open>The statistics update of \<^verbatim>\<open>process_snapshot\<close>.\<close>

definition update_statistics :: "sale_event list \<Rightarrow> engine \<Rightarrow> engine" where
  "update_statistics sales_events e =
     (e\<lparr>total_sales_detected := total_sales_detected e + int (length sales_events),
        sales_by_product :=
          fold (\<lambda>sale m. m(product_name sale \<mapsto>
                   (case m (product_name sale) of None \<Rightarrow> 0 | Some n \<Rightarrow> n) + quantity_delta sale))
               sales_events (sales_by_product e)\<rparr>)"

text \<open>\<^verbatim>\<open>SalesAttributionEngine.process_snapshot\<close>\<close>

definition process_snapshot :: "engine \<Rightarrow> inventory \<Rightarrow> real \<Rightarrow> error + (sale_event list \<times> engine)" where
  "process_snapshot e inventory timestamp =
     (let e0 = e\<lparr>snapshot_history :=
                  deque_append (confirm_intervals e + 1) (snapshot_history e) (timestamp, inventory)\<rparr>
      in if length (snapshot_history e0) < 2 then Inr ([], e0)
         else
           (case detect_attributed_sales e0 timestamp of
              Inl err \<Rightarrow> Inl err
            | Inr (sales_events, e1) \<Rightarrow> Inr (sales_events, update_statistics sales_events e1)))"

text \<open>Feeding a sequence of snapshots, collecting the events of every tick.\<close>

fun process_all ::
  "engine \<Rightarrow> (inventory \<times> real) list \<Rightarrow> error + (sale_event list list \<times> engine)" where
  "process_all e [] = Inr ([], e)"
| "process_all e ((inventory, ts) # rest) =
     (case process_snapshot e inventory ts of
        Inl err \<Rightarrow> Inl err
      | Inr (evs, e1) \<Rightarrow>
          (case process_all e1 rest of
             Inl err \<Rightarrow> Inl err
           | Inr (out, e2) \<Rightarrow> Inr (evs # out, e2)))"

text \<open>A fresh engine fed a sequence of snapshots: the events returned at every tick.\<close>

definition replay ::
  "int \<Rightarrow> int \<Rightarrow> real \<Rightarrow> real \<Rightarrow> (inventory \<times> real) list \<Rightarrow> error + sale_event list list" where
  "replay ci mdt cd si snaps =
     (case SalesAttributionEngine_init ci mdt cd si of
        Inl err \<Rightarrow> Inl err
      | Inr e \<Rightarrow>
          (case process_all e snaps of
             Inl err \<Rightarrow> Inl err
           | Inr (out, e') \<Rightarrow> Inr out))"

section \<open>Alert engine\<close>

text \<open>The constants of \<^verbatim>\<open>AlertType\<close> and \<^verbatim>\<open>AlertSeverity\<close>.\<close>

datatype alert_kind = LOW_STOCK | EXPIRATION

datatype alert_severity = INFO | WARNING | CRITICAL

text \<open>
  A freshness record is a dict read with \<^verbatim>\<open>.get\<close>; a field that is \<open>None\<close> here is a
  key the dict does not have.
\<close>

record freshness_data =
  is_expired :: "bool option"
  age_days :: "real option"
  expiration_days :: "int option"
  first_seen_utc :: "real option"

text \<open>
  The \<^verbatim>\<open>metadata\<close> dict of an alert. For an expiration alert the source stores
  \<^verbatim>\<open>round(age_days, 1)\<close>; the model keeps the age unrounded.
\<close>

datatype alert_metadata =
    LowStockMetadata (current_count: int) (threshold: int) (status: string)
  | ExpirationMetadata (meta_age_days: real) (meta_expiration_days: int) (meta_first_seen_utc: "real option")

text \<open>
  \<^verbatim>\<open>Alert\<close>, without the formatted \<^verbatim>\<open>message\<close>. The fields \<^verbatim>\<open>product_name\<close> and
  \<^verbatim>\<open>timestamp_utc\<close> carry the prefix \<open>alert_\<close> since sale events use these names.
  \<^verbatim>\<open>alert_id\<close>, the string \<^verbatim>\<open>f"{alert_type}_{product_name}_{int(timestamp_utc)}"\<close>, is the
  triple of its three parts.
\<close>

record alert =
  alert_type :: alert_kind
  alert_product_name :: string
  severity :: alert_severity
  alert_timestamp_utc :: real
  metadata :: alert_metadata

definition alert_id :: "alert \<Rightarrow> alert_kind \<times> string \<times> int" where
  "alert_id a =
     (alert_type a, alert_product_name a,
      (if 0 \<le> alert_timestamp_utc a then \<lfloor>alert_timestamp_utc a\<rfloor> else \<lceil>alert_timestamp_utc a\<rceil>))"

text \<open>
  The attributes of \<^verbatim>\<open>AlertEngine\<close>, without the mail notifier and the persistence
  manager. The two pending tables are \<^verbatim>\<open>defaultdict\<close>s whose factory builds a
  \<^verbatim>\<open>deque(maxlen=confirm_intervals + 1)\<close> when a missing key is read.
\<close>

record alert_engine =
  low_stock_thresholds :: "int dict"
  low_stock_confirm_intervals :: int
  expiration_confirm_intervals :: int
  alert_cooldown_seconds :: real
  pending_low_stock :: "string \<rightharpoonup> (real \<times> int) list"
  pending_expiration :: "string \<rightharpoonup> (real \<times> real) list"
  last_alert_time :: "alert_kind \<times> string \<rightharpoonup> real"
  active_alerts :: "alert_kind \<times> string \<times> int \<rightharpoonup> alert"
  total_alerts_triggered :: int
  alerts_by_type :: "alert_kind \<rightharpoonup> int"
  alerts_suppressed_by_cooldown :: int

text \<open>
  \<^verbatim>\<open>AlertEngine.__init__\<close>. With \<^verbatim>\<open>enable_email_alerts\<close> the constructor first builds an
  \<^verbatim>\<open>EmailNotifier\<close>, whose \<^verbatim>\<open>int(os.getenv('SMTP_PORT', '587'))\<close> raises \<^verbatim>\<open>ValueError\<close>
  when the variable does not hold an integer: \<open>smtp_port\<close> is the integer that call
  returns in the environment of the process, \<open>None\<close> when it raises. The threshold
  argument is \<open>None\<close> for Python's \<^verbatim>\<open>None\<close>: the last statement of the constructor formats
  \<^verbatim>\<open>len(low_stock_thresholds)\<close> into its log line, which raises \<^verbatim>\<open>TypeError\<close> then. The
  two deque factories are only stored, so no number is checked here.
\<close>

definition AlertEngine_init ::
  "int dict option \<Rightarrow> int \<Rightarrow> int \<Rightarrow> real \<Rightarrow> bool \<Rightarrow> int option \<Rightarrow> error + alert_engine" where
  "AlertEngine_init thresholds lci eci cd enable_email_alerts smtp_port =
     (if enable_email_alerts \<and> smtp_port = None then Inl ValueError
      else
        (case thresholds of
           None \<Rightarrow> Inl TypeError
         | Some th \<Rightarrow>
             Inr \<lparr>low_stock_thresholds = th, low_stock_confirm_intervals = lci,
                  expiration_confirm_intervals = eci, alert_cooldown_seconds = cd,
                  pending_low_stock = Map.empty, pending_expiration = Map.empty,
                  last_alert_time = Map.empty, active_alerts = Map.empty,
                  total_alerts_triggered = 0, alerts_by_type = Map.empty,
                  alerts_suppressed_by_cooldown = 0\<rparr>))"

text \<open>
  Reading \<^verbatim>\<open>pending[product_name]\<close> from a \<^verbatim>\<open>defaultdict\<close> of deques: a missing key is
  created with a new deque, which raises for a \<open>maxlen\<close> that is negative or too large.
\<close>

definition pending_lookup ::
  "int \<Rightarrow> (string \<rightharpoonup> 'a list) \<Rightarrow> string \<Rightarrow> error + ('a list \<times> (string \<rightharpoonup> 'a list))" where
  "pending_lookup maxlen m pn =
     (case m pn of
        Some q \<Rightarrow> Inr (q, m)
      | None \<Rightarrow> (case deque_new maxlen of Inl err \<Rightarrow> Inl err | Inr q \<Rightarrow> Inr (q, m(pn \<mapsto> q))))"

text \<open>\<^verbatim>\<open>_validate_low_stock\<close>\<close>

definition validate_low_stock :: "alert_engine \<Rightarrow> string \<Rightarrow> int \<Rightarrow> error + (bool \<times> alert_engine)" where
  "validate_low_stock e pn th =
     (case pending_lookup (low_stock_confirm_intervals e + 1) (pending_low_stock e) pn of
        Inl err \<Rightarrow> Inl err
      | Inr (pending, m) \<Rightarrow>
          Inr (if int (length pending) < low_stock_confirm_intervals e then False
               else list_all (\<lambda>(_, count). \<not> count > th) pending,
               e\<lparr>pending_low_stock := m\<rparr>))"

text \<open>\<^verbatim>\<open>_validate_expiration\<close>\<close>

definition validate_expiration :: "alert_engine \<Rightarrow> string \<Rightarrow> error + (bool \<times> alert_engine)" where
  "validate_expiration e pn =
     (case pending_lookup (expiration_confirm_intervals e + 1) (pending_expiration e) pn of
        Inl err \<Rightarrow> Inl err
      | Inr (pending, m) \<Rightarrow>
          Inr (if int (length pending) < expiration_confirm_intervals e then False else True,
               e\<lparr>pending_expiration := m\<rparr>))"

text \<open>\<^verbatim>\<open>AlertEngine._check_cooldown\<close>, which counts the alerts it suppresses.\<close>

definition check_alert_cooldown ::
  "alert_engine \<Rightarrow> alert_kind \<Rightarrow> string \<Rightarrow> real \<Rightarrow> bool \<times> alert_engine" where
  "check_alert_cooldown e kind pn current_time =
     (case last_alert_time e (kind, pn) of
        None \<Rightarrow> (True, e)
      | Some t \<Rightarrow>
          if current_time - t < alert_cooldown_seconds e
          then (False, e\<lparr>alerts_suppressed_by_cooldown := alerts_suppressed_by_cooldown e + 1\<rparr>)
          else (True, e))"

text \<open>The body of the loop of \<^verbatim>\<open>_evaluate_low_stock\<close> over the items of the threshold table.\<close>

definition low_stock_body ::
  "inventory \<Rightarrow> real \<Rightarrow> string \<times> int \<Rightarrow> alert list \<times> alert_engine
     \<Rightarrow> error + (alert list \<times> alert_engine)" where
  "low_stock_body inventory ts item acc =
     (case item of (pn, th) \<Rightarrow> case acc of (alerts, e) \<Rightarrow>
      let current_count = dict_get inventory pn 0 in
      if current_count \<le> th then
        (case pending_lookup (low_stock_confirm_intervals e + 1) (pending_low_stock e) pn of
           Inl err \<Rightarrow> Inl err
         | Inr (q, m) \<Rightarrow>
             (let m1 = m(pn \<mapsto> deque_append (low_stock_confirm_intervals e + 1) q (ts, current_count));
                  e1 = e\<lparr>pending_low_stock := m1\<rparr>
              in (case validate_low_stock e1 pn th of
                    Inl err \<Rightarrow> Inl err
                  | Inr (valid, e2) \<Rightarrow>
                      if valid then
                        (case check_alert_cooldown e2 LOW_STOCK pn ts of
                           (True, e3) \<Rightarrow>
                             (let a = \<lparr>alert_type = LOW_STOCK, alert_product_name = pn,
                                       severity = (if current_count = 0 then CRITICAL else WARNING),
                                       alert_timestamp_utc = ts,
                                       metadata = LowStockMetadata current_count th
                                         (if current_count = 0 then ''out_of_stock'' else ''low_stock'')\<rparr>;
                                  lat = (last_alert_time e3)((LOW_STOCK, pn) \<mapsto> ts);
                                  pls = (pending_low_stock e3)(pn \<mapsto> [])
                              in Inr (alerts @ [a], e3\<lparr>last_alert_time := lat, pending_low_stock := pls\<rparr>))
                         | (False, e3) \<Rightarrow> Inr (alerts, e3))
                      else Inr (alerts, e2))))
      else
        (if pending_low_stock e pn \<noteq> None
         then (let pls = (pending_low_stock e)(pn \<mapsto> []) in Inr (alerts, e\<lparr>pending_low_stock := pls\<rparr>))
         else Inr (alerts, e)))"

text \<open>\<^verbatim>\<open>_evaluate_low_stock\<close>\<close>

definition evaluate_low_stock :: "alert_engine \<Rightarrow> inventory \<Rightarrow> real \<Rightarrow> error + (alert list \<times> alert_engine)" where
  "evaluate_low_stock e inventory ts =
     for_each (low_stock_body inventory ts) (dict_items (low_stock_thresholds e)) ([], e)"

text \<open>The body of the loop of \<^verbatim>\<open>_evaluate_expiration\<close> over the items of the freshness state.\<close>

definition expiration_body ::
  "real \<Rightarrow> string \<times> freshness_data \<Rightarrow> alert list \<times> alert_engine
     \<Rightarrow> error + (alert list \<times> alert_engine)" where
  "expiration_body ts item acc =
     (case item of (pn, fd) \<Rightarrow> case acc of (alerts, e) \<Rightarrow>
      let expired = (case is_expired fd of None \<Rightarrow> False | Some b \<Rightarrow> b);
          age = (case age_days fd of None \<Rightarrow> 0 | Some d \<Rightarrow> d)
      in
      if expired then
        (case pending_lookup (expiration_confirm_intervals e + 1) (pending_expiration e) pn of
           Inl err \<Rightarrow> Inl err
         | Inr (q, m) \<Rightarrow>
             (let m1 = m(pn \<mapsto> deque_append (expiration_confirm_intervals e + 1) q (ts, age));
                  e1 = e\<lparr>pending_expiration := m1\<rparr>
              in (case validate_expiration e1 pn of
                    Inl err \<Rightarrow> Inl err
                  | Inr (valid, e2) \<Rightarrow>
                      if valid then
                        (case check_alert_cooldown e2 EXPIRATION pn ts of
                           (True, e3) \<Rightarrow>
                             (let a = \<lparr>alert_type = EXPIRATION, alert_product_name = pn,
                                       severity = WARNING, alert_timestamp_utc = ts,
                                       metadata = ExpirationMetadata age
                                         (case expiration_days fd of None \<Rightarrow> 5 | Some d \<Rightarrow> d)
                                         (first_seen_utc fd)\<rparr>;
                                  lat = (last_alert_time e3)((EXPIRATION, pn) \<mapsto> ts);
                                  pex = (pending_expiration e3)(pn \<mapsto> [])
                              in Inr (alerts @ [a], e3\<lparr>last_alert_time := lat, pending_expiration := pex\<rparr>))
                         | (False, e3) \<Rightarrow> Inr (alerts, e3))
                      else Inr (alerts, e2))))
      else
        (if pending_expiration e pn \<noteq> None
         then (let pex = (pending_expiration e)(pn \<mapsto> []) in Inr (alerts, e\<lparr>pending_expiration := pex\<rparr>))
         else Inr (alerts, e)))"

text \<open>\<^verbatim>\<open>_evaluate_expiration\<close>\<close>

definition evaluate_expiration ::
  "alert_engine \<Rightarrow> freshness_data dict \<Rightarrow> real \<Rightarrow> error + (alert list \<times> alert_engine)" where
  "evaluate_expiration e freshness_state ts =
     for_each (expiration_body ts) (dict_items freshness_state) ([], e)"

text \<open>
  \<^verbatim>\<open>_process_alert\<close>: the statistics and the table of active alerts, which the source
  updates first. What follows there is outside the model: the timestamp is formatted
  for the mail (\<^verbatim>\<open>import pytz\<close> raises when the package is missing,
  \<^verbatim>\<open>datetime.fromtimestamp\<close> raises for a timestamp beyond the year 9999), the mail is
  sent and the alert is written to the store. So \<open>evaluate\<close> below returns in some cases
  where the source raises after having updated the engine; wherever the source returns,
  it returns what \<open>evaluate\<close> returns.
\<close>

definition process_alert :: "alert \<Rightarrow> alert_engine \<Rightarrow> alert_engine" where
  "process_alert a e =
     (let abt = (alerts_by_type e)(alert_type a \<mapsto>
                  (case alerts_by_type e (alert_type a) of None \<Rightarrow> 0 | Some n \<Rightarrow> n) + 1);
          act = (active_alerts e)(alert_id a \<mapsto> a)
      in e\<lparr>total_alerts_triggered := total_alerts_triggered e + 1,
           alerts_by_type := abt, active_alerts := act\<rparr>)"

text \<open>\<^verbatim>\<open>AlertEngine.evaluate\<close>\<close>

definition evaluate ::
  "alert_engine \<Rightarrow> inventory \<Rightarrow> freshness_data dict \<Rightarrow> real \<Rightarrow> error + (alert list \<times> alert_engine)" where
  "evaluate e inventory freshness_state timestamp =
     (case evaluate_low_stock e inventory timestamp of
        Inl err \<Rightarrow> Inl err
      | Inr (low_stock_alerts, e1) \<Rightarrow>
          (case evaluate_expiration e1 freshness_state timestamp of
             Inl err \<Rightarrow> Inl err
           | Inr (expiration_alerts, e2) \<Rightarrow>
               (let alerts = low_stock_alerts @ expiration_alerts
                in Inr (alerts, fold process_alert alerts e2))))"

text \<open>Calling \<open>evaluate\<close> once per tick, collecting the alerts of every tick.\<close>

fun evaluate_all ::
  "alert_engine \<Rightarrow> (inventory \<times> freshness_data dict \<times> real) list
     \<Rightarrow> error + (alert list list \<times> alert_engine)" where
  "evaluate_all e [] = Inr ([], e)"
| "evaluate_all e ((inventory, freshness_state, ts) # rest) =
     (case evaluate e inventory freshness_state ts of
        Inl err \<Rightarrow> Inl err
      | Inr (alerts, e1) \<Rightarrow>
          (case evaluate_all e1 rest of
             Inl err \<Rightarrow> Inl err
           | Inr (out, e2) \<Rightarrow> Inr (alerts # out, e2)))"

text \<open>The engine a fresh engine has become after a sequence of snapshots.\<close>

definition replay_state ::
  "int \<Rightarrow> int \<Rightarrow> real \<Rightarrow> real \<Rightarrow> (inventory \<times> real) list \<Rightarrow> error + engine" where
  "replay_state ci mdt cd si snaps =
     (case SalesAttributionEngine_init ci mdt cd si of
        Inl err \<Rightarrow> Inl err
      | Inr e \<Rightarrow>
          (case process_all e snaps of
             Inl err \<Rightarrow> Inl err
           | Inr (out, e') \<Rightarrow> Inr e'))"

text \<open>
  A fresh alert engine, built without the mail notifier (\<^verbatim>\<open>enable_email_alerts=False\<close>),
  evaluated on a sequence of ticks: the alerts of every tick. The engine built with the
  notifier has the same attributes.
\<close>

definition alert_replay ::
  "int dict option \<Rightarrow> int \<Rightarrow> int \<Rightarrow> real \<Rightarrow> (inventory \<times> freshness_data dict \<times> real) list
     \<Rightarrow> error + alert list list" where
  "alert_replay thresholds lci eci cd ticks =
     (case AlertEngine_init thresholds lci eci cd False None of
        Inl err \<Rightarrow> Inl err
      | Inr e \<Rightarrow>
          (case evaluate_all e ticks of
             Inl err \<Rightarrow> Inl err
           | Inr (out, e') \<Rightarrow> Inr out))"

text \<open>The alert engine a fresh one has become after a sequence of ticks.\<close>

definition alert_replay_state ::
  "int dict option \<Rightarrow> int \<Rightarrow> int \<Rightarrow> real \<Rightarrow> (inventory \<times> freshness_data dict \<times> real) list
     \<Rightarrow> error + alert_engine" where
  "alert_replay_state thresholds lci eci cd ticks =
     (case AlertEngine_init thresholds lci eci cd False None of
        Inl err \<Rightarrow> Inl err
      | Inr e \<Rightarrow>
          (case evaluate_all e ticks of
             Inl err \<Rightarrow> Inl err
           | Inr (out, e') \<Rightarrow> Inr e'))"

text \<open>The capacity of the two families of pending deques of the alert engine.\<close>

definition queues_bounded :: "alert_engine \<Rightarrow> bool" where
  "queues_bounded e \<longleftrightarrow>
     (\<forall>p q. pending_low_stock e p = Some q \<longrightarrow> int (length q) \<le> low_stock_confirm_intervals e + 1)
     \<and> (\<forall>p q. pending_expiration e p = Some q \<longrightarrow> int (length q) \<le> expiration_confirm_intervals e + 1)"



section \<open>The iteration order of the product set\<close>






section \<open>The documented scenario\<close>

text \<open>
  C1. A fresh engine with \<open>confirm_intervals = 2\<close>, \<open>min_delta_threshold = 1\<close> and
  \<open>snapshot_interval = 5\<close>, fed \<open>{mango: 5}\<close> at \<open>t0\<close>, \<open>{mango: 4}\<close> at \<open>t0 + 5\<close> and
  \<open>{mango: 4}\<close> at \<open>t0 + 10\<close>, returns no event on the first two calls and exactly one
  sale event on the third: mango, quantity 1, inventory 5 before and 4 after. This
  holds for every start time and every cooldown.
\<close>

theorem mango_scenario:
  "replay 2 1 cd 5
     [([(''mango'', 5)], t0), ([(''mango'', 4)], t0 + 5), ([(''mango'', 4)], t0 + 10)]
   = Inr [[], [],
       [\<lparr>product_name = ''mango'', quantity_delta = 1, inventory_before = 5,
         inventory_after = 4, timestamp_utc = t0 + 10, validated = True\<rparr>]]"
  by (simp add: replay_def SalesAttributionEngine_init_def deque_new_def process_snapshot_def
      deque_append_def detect_attributed_sales_def all_products_def dict_keys_def dict_get_def
      product_body_def validate_decrease_def slice_from_def check_cooldown_def
      cleanup_pending_decreases_def unattributed_fallback_def validate_total_decrease_def
      sum_values_def dict_items_def update_statistics_def Let_def)

lemma for_each_append:
  "for_each body (xs @ ys) s =
     (case for_each body xs s of Inl err \<Rightarrow> Inl err | Inr s1 \<Rightarrow> for_each body ys s1)"
  by (induction xs arbitrary: s) (auto split: sum.splits)

lemma for_each_invariant:
  assumes "for_each body xs s = Inr s'" and "I s"
    and "\<And>x s t. x \<in> set xs \<Longrightarrow> I s \<Longrightarrow> body x s = Inr t \<Longrightarrow> I t"
  shows "I s'"
  using assms
proof (induction xs arbitrary: s)
  case Nil
  then show ?case by simp
next
  case (Cons x xs)
  from Cons.prems(1) obtain s1 where b: "body x s = Inr s1" and r: "for_each body xs s1 = Inr s'"
    by (auto split: sum.splits)
  have i1: "I s1" using Cons.prems(3)[OF _ Cons.prems(2) b] by simp
  show ?case
    by (rule Cons.IH[OF r i1]) (use Cons.prems(3) in auto)
qed

lemma for_each_total:
  assumes "I s"
    and "\<And>x s. x \<in> set xs \<Longrightarrow> I s \<Longrightarrow> \<exists>t. body x s = Inr t \<and> I t"
  shows "\<exists>s'. for_each body xs s = Inr s'"
  using assms
proof (induction xs arbitrary: s)
  case Nil
  then show ?case by simp
next
  case (Cons x xs)
  from Cons.prems(2)[of x s] Cons.prems(1) obtain s1 where b: "body x s = Inr s1" and i: "I s1"
    by auto
  have "\<exists>s'. for_each body xs s1 = Inr s'"
    using Cons.IH[OF i] Cons.prems(2) by simp
  then show ?case using b by simp
qed

lemma for_each_local:
  assumes run: "for_each body xs s = Inr s'"
    and dist: "distinct (map key xs)"
    and mem: "x \<in> set xs"
    and frame: "\<And>y s t. y \<in> set xs \<Longrightarrow> key y \<noteq> key x \<Longrightarrow> body y s = Inr t \<Longrightarrow> view t = view s"
  shows "\<exists>s1 s2. body x s1 = Inr s2 \<and> view s1 = view s \<and> view s' = view s2"
proof -
  from mem obtain as bs where xs: "xs = as @ x # bs"
    by (auto dest: split_list)
  from dist xs have ka: "key x \<notin> key ` set as" and kb: "key x \<notin> key ` set bs"
    by auto
  have na: "key y \<noteq> key x" if "y \<in> set as" for y
    using ka that by (metis imageI)
  have nb: "key y \<noteq> key x" if "y \<in> set bs" for y
    using kb that by (metis imageI)
  from run xs obtain s1 s2 where r1: "for_each body as s = Inr s1"
    and b: "body x s1 = Inr s2" and r2: "for_each body bs s2 = Inr s'"
    by (auto simp: for_each_append split: sum.splits)
  have v1: "view s1 = view s"
  proof (rule for_each_invariant[OF r1, where I = "\<lambda>t. view t = view s"])
    show "view s = view s" by simp
  next
    fix y u t
    assume "y \<in> set as" and "view u = view s" and "body y u = Inr t"
    then show "view t = view s"
      using frame[of y u t] na[of y] xs by simp
  qed
  have v2: "view s' = view s2"
  proof (rule for_each_invariant[OF r2, where I = "\<lambda>t. view t = view s2"])
    show "view s2 = view s2" by simp
  next
    fix y u t
    assume "y \<in> set bs" and "view u = view s2" and "body y u = Inr t"
    then show "view t = view s2"
      using frame[of y u t] nb[of y] xs by simp
  qed
  from b v1 v2 show ?thesis by blast
qed

lemma product_body_config:
  assumes "product_body ts cur prev p (evs, e) = Inr (evs', e')"
  shows "confirm_intervals e' = confirm_intervals e \<and> min_delta_threshold e' = min_delta_threshold e
       \<and> cooldown_seconds e' = cooldown_seconds e \<and> snapshot_interval e' = snapshot_interval e
       \<and> snapshot_history e' = snapshot_history e
       \<and> false_positives_filtered e' = false_positives_filtered e
       \<and> total_sales_detected e' = total_sales_detected e
       \<and> sales_by_product e' = sales_by_product e"
  using assms
  by (auto simp: product_body_def Let_def split: option.splits list.splits sum.splits if_splits)

lemma product_body_frame:
  assumes "product_body ts cur prev q (evs, e) = Inr (evs', e')" and "q \<noteq> p"
  shows "pending_decreases e' p = pending_decreases e p \<and> last_sale_time e' p = last_sale_time e p
       \<and> filter (\<lambda>ev. product_name ev = p) evs' = filter (\<lambda>ev. product_name ev = p) evs"
  using assms
  by (auto simp: product_body_def Let_def split: option.splits list.splits sum.splits if_splits)

lemma product_body_emit:
  assumes "product_body ts cur prev p (evs, e) = Inr (evs', e')"
  shows "(evs' = evs \<and> last_sale_time e' = last_sale_time e) \<or>
     (\<exists>ev. evs' = evs @ [ev] \<and> product_name ev = p \<and> validated ev \<and> timestamp_utc ev = ts
        \<and> inventory_after ev = dict_get cur p 0
        \<and> check_cooldown e p ts
        \<and> last_sale_time e' = (last_sale_time e)(p \<mapsto> ts)
        \<and> pending_decreases e' p = Some []
        \<and> dict_get cur p 0 - dict_get prev p 0 \<le> 0
        \<and> (dict_get cur p 0 - dict_get prev p 0 < 0 \<longrightarrow>
              quantity_delta ev = dict_get prev p 0 - dict_get cur p 0
              \<and> inventory_before ev = dict_get prev p 0)
        \<and> (dict_get cur p 0 - dict_get prev p 0 = 0 \<longrightarrow>
              (\<exists>t d rest. pending_decreases e p = Some ((t, d) # rest)
                 \<and> quantity_delta ev = \<bar>d\<bar>
                 \<and> inventory_before ev = dict_get prev p 0 + \<bar>d\<bar>)))"
  using assms
  by (auto simp: product_body_def Let_def check_cooldown_def
      split: option.splits list.splits sum.splits if_splits)

lemma product_body_increase:
  assumes "product_body ts cur prev p (evs, e) = Inr (evs', e')"
    and "dict_get cur p 0 - dict_get prev p 0 > 0"
  shows "pending_decreases e' p = None \<or> pending_decreases e' p = Some []"
  using assms
  by (auto simp: product_body_def Let_def split: option.splits list.splits sum.splits if_splits)

lemma deque_append_last2:
  assumes "2 \<le> length (deque_append m q x)"
  shows "q \<noteq> [] \<and> (\<exists>older. rev (deque_append m q x) = x # last q # older)"
proof -
  from assms have ne: "q \<noteq> []"
    by (auto simp: deque_append_def Let_def split: if_splits)
  then obtain q0 y where q: "q = q0 @ [y]"
    by (metis append_butlast_last_id)
  show ?thesis
  proof (cases "m < int (length (q @ [x]))")
    case True
    then have d: "deque_append m q x = tl q @ [x]"
      using ne by (simp add: deque_append_def Let_def)
    from assms have "2 \<le> length (tl q @ [x])" unfolding d .
    then have "tl q \<noteq> []" by (cases "tl q") auto
    then obtain q1 where "tl q = q1 @ [y]"
      using q by (cases q0) auto
    then show ?thesis using ne d q by simp
  next
    case False
    then have "deque_append m q x = q @ [x]"
      by (simp add: deque_append_def Let_def)
    then show ?thesis using ne q by simp
  qed
qed

lemma process_snapshot_cases:
  assumes "process_snapshot e inventory ts = Inr (evs, e')"
  obtains (first) "evs = []" "last_sale_time e' = last_sale_time e"
      "pending_decreases e' = pending_decreases e"
      "false_positives_filtered e' = false_positives_filtered e"
      "length (deque_append (confirm_intervals e + 1) (snapshot_history e) (ts, inventory)) < 2"
  | (detect) evs1 e1 e2 where "snapshot_history e \<noteq> []"
      "2 \<le> length (deque_append (confirm_intervals e + 1) (snapshot_history e) (ts, inventory))"
      "for_each (product_body ts inventory (snd (last (snapshot_history e))))
         (all_products inventory (snd (last (snapshot_history e))))
         ([], e\<lparr>snapshot_history :=
                 deque_append (confirm_intervals e + 1) (snapshot_history e) (ts, inventory)\<rparr>)
       = Inr (evs1, e1)"
      "unattributed_fallback ts inventory (snd (last (snapshot_history e)))
         (evs1, cleanup_pending_decreases e1 ts) = (evs, e2)"
      "e' = update_statistics evs e2"
proof (cases "length (deque_append (confirm_intervals e + 1) (snapshot_history e) (ts, inventory)) < 2")
  case True
  with assms show ?thesis
    by (intro first) (auto simp: process_snapshot_def Let_def)
next
  case False
  then have len: "2 \<le> length (deque_append (confirm_intervals e + 1) (snapshot_history e) (ts, inventory))"
    by simp
  from deque_append_last2[OF len] obtain older where ne: "snapshot_history e \<noteq> []"
    and rv: "rev (deque_append (confirm_intervals e + 1) (snapshot_history e) (ts, inventory))
             = (ts, inventory) # last (snapshot_history e) # older"
    by blast
  obtain pt prev where lp: "last (snapshot_history e) = (pt, prev)"
    by (cases "last (snapshot_history e)")
  define e0 where "e0 = e\<lparr>snapshot_history :=
      deque_append (confirm_intervals e + 1) (snapshot_history e) (ts, inventory)\<rparr>"
  have ps: "process_snapshot e inventory ts =
      (case detect_attributed_sales e0 ts of
         Inl err \<Rightarrow> Inl err
       | Inr (sales_events, e1) \<Rightarrow> Inr (sales_events, update_statistics sales_events e1))"
    using False by (simp add: process_snapshot_def Let_def e0_def)
  have det: "detect_attributed_sales e0 ts =
      (case for_each (product_body ts inventory prev) (all_products inventory prev) ([], e0) of
         Inl err \<Rightarrow> Inl err
       | Inr (sales_events, e1) \<Rightarrow>
           Inr (unattributed_fallback ts inventory prev
                  (sales_events, cleanup_pending_decreases e1 ts)))"
    using rv lp by (simp add: detect_attributed_sales_def e0_def)
  from assms ps obtain e2 where d2: "detect_attributed_sales e0 ts = Inr (evs, e2)"
    and e': "e' = update_statistics evs e2"
    by (auto split: sum.splits prod.splits)
  from d2 det obtain evs1 e1 where
    loop: "for_each (product_body ts inventory prev) (all_products inventory prev) ([], e0)
           = Inr (evs1, e1)"
    and fb: "unattributed_fallback ts inventory prev (evs1, cleanup_pending_decreases e1 ts)
           = (evs, e2)"
    by (auto split: sum.splits prod.splits)
  show ?thesis
    using detect[OF ne len _ _ e', of evs1 e1] loop fb lp by (simp add: e0_def)
qed


lemma sales_loop_config:
  assumes "for_each (product_body ts cur prev) ps (evs0, e0) = Inr (evs1, e1)"
  shows "confirm_intervals e1 = confirm_intervals e0 \<and> min_delta_threshold e1 = min_delta_threshold e0
       \<and> cooldown_seconds e1 = cooldown_seconds e0 \<and> snapshot_interval e1 = snapshot_interval e0
       \<and> snapshot_history e1 = snapshot_history e0
       \<and> false_positives_filtered e1 = false_positives_filtered e0
       \<and> total_sales_detected e1 = total_sales_detected e0
       \<and> sales_by_product e1 = sales_by_product e0"
  using assms
proof (induction ps arbitrary: evs0 e0)
  case Nil
  then show ?case by simp
next
  case (Cons p ps)
  from Cons.prems obtain evs' e' where b: "product_body ts cur prev p (evs0, e0) = Inr (evs', e')"
    and r: "for_each (product_body ts cur prev) ps (evs', e') = Inr (evs1, e1)"
    by (auto split: sum.splits)
  from product_body_config[OF b] Cons.IH[OF r] show ?case by simp
qed

lemma sales_loop_quiet:
  assumes "for_each (product_body ts cur prev) ps (evs0, e0) = Inr (evs1, e1)"
  shows "(\<exists>new. evs1 = evs0 @ new \<and> product_name ` set new \<subseteq> set ps
            \<and> (\<forall>p. p \<notin> product_name ` set new \<longrightarrow> last_sale_time e1 p = last_sale_time e0 p))"
  using assms
proof (induction ps arbitrary: evs0 e0)
  case Nil
  then show ?case by simp
next
  case (Cons p ps)
  from Cons.prems obtain evs' e' where b: "product_body ts cur prev p (evs0, e0) = Inr (evs', e')"
    and r: "for_each (product_body ts cur prev) ps (evs', e') = Inr (evs1, e1)"
    by (auto split: sum.splits)
  from Cons.IH[OF r] obtain new where n: "evs1 = evs' @ new" "product_name ` set new \<subseteq> set ps"
    "\<forall>q. q \<notin> product_name ` set new \<longrightarrow> last_sale_time e1 q = last_sale_time e' q"
    by blast
  from product_body_emit[OF b] show ?case
  proof
    assume "evs' = evs0 \<and> last_sale_time e' = last_sale_time e0"
    with n show ?thesis by auto
  next
    assume "\<exists>ev. evs' = evs0 @ [ev] \<and> product_name ev = p \<and> validated ev \<and> timestamp_utc ev = ts
        \<and> inventory_after ev = dict_get cur p 0
        \<and> check_cooldown e0 p ts
        \<and> last_sale_time e' = (last_sale_time e0)(p \<mapsto> ts)
        \<and> pending_decreases e' p = Some []
        \<and> dict_get cur p 0 - dict_get prev p 0 \<le> 0
        \<and> (dict_get cur p 0 - dict_get prev p 0 < 0 \<longrightarrow>
              quantity_delta ev = dict_get prev p 0 - dict_get cur p 0
              \<and> inventory_before ev = dict_get prev p 0)
        \<and> (dict_get cur p 0 - dict_get prev p 0 = 0 \<longrightarrow>
              (\<exists>t d rest. pending_decreases e0 p = Some ((t, d) # rest)
                 \<and> quantity_delta ev = \<bar>d\<bar>
                 \<and> inventory_before ev = dict_get prev p 0 + \<bar>d\<bar>))"
    then obtain ev where ev: "evs' = evs0 @ [ev]" "product_name ev = p"
      "last_sale_time e' = (last_sale_time e0)(p \<mapsto> ts)"
      by blast
    have "evs1 = evs0 @ (ev # new)" using n ev by simp
    moreover have "product_name ` set (ev # new) \<subseteq> set (p # ps)" using n ev by auto
    moreover have "\<forall>q. q \<notin> product_name ` set (ev # new) \<longrightarrow> last_sale_time e1 q = last_sale_time e0 q"
      using n ev by auto
    ultimately show ?thesis by blast
  qed
qed

lemma sales_loop_event:
  assumes loop: "for_each (product_body ts cur prev) ps ([], e0) = Inr (evs1, e1)"
    and dist: "distinct ps" and mem: "ev \<in> set evs1"
  shows "filter (\<lambda>x. product_name x = product_name ev) evs1 = [ev]
     \<and> validated ev \<and> timestamp_utc ev = ts
     \<and> inventory_after ev = dict_get cur (product_name ev) 0
     \<and> check_cooldown e0 (product_name ev) ts
     \<and> last_sale_time e1 (product_name ev) = Some ts
     \<and> pending_decreases e1 (product_name ev) = Some []
     \<and> dict_get cur (product_name ev) 0 - dict_get prev (product_name ev) 0 \<le> 0
     \<and> (dict_get cur (product_name ev) 0 - dict_get prev (product_name ev) 0 < 0 \<longrightarrow>
           quantity_delta ev = dict_get prev (product_name ev) 0 - dict_get cur (product_name ev) 0
           \<and> inventory_before ev = dict_get prev (product_name ev) 0)
     \<and> (dict_get cur (product_name ev) 0 - dict_get prev (product_name ev) 0 = 0 \<longrightarrow>
           (\<exists>t d rest. pending_decreases e0 (product_name ev) = Some ((t, d) # rest)
              \<and> quantity_delta ev = \<bar>d\<bar>
              \<and> inventory_before ev = dict_get prev (product_name ev) 0 + \<bar>d\<bar>))"
proof -
  define p where "p = product_name ev"
  define view where "view = (\<lambda>s :: sale_event list \<times> engine.
     (pending_decreases (snd s) p, last_sale_time (snd s) p, cooldown_seconds (snd s),
      filter (\<lambda>x. product_name x = p) (fst s)))"
  from sales_loop_quiet[OF loop] mem have pin: "p \<in> set ps"
    by (auto simp: p_def)
  have frame: "view t = view s"
    if "y \<noteq> p" and "product_body ts cur prev y s = Inr t" for y s t
  proof -
    obtain a b where s: "s = (a, b)" by (cases s)
    obtain c d where t: "t = (c, d)" by (cases t)
    from product_body_frame[OF that(2)[unfolded s t] that(1)]
      product_body_config[OF that(2)[unfolded s t]]
    show ?thesis by (simp add: view_def s t)
  qed
  from for_each_local[OF loop, where key = "\<lambda>x. x" and view = view and x = p] dist pin frame
  obtain s1 s2 where b: "product_body ts cur prev p s1 = Inr s2"
    and v1: "view s1 = view ([], e0)" and v2: "view (evs1, e1) = view s2"
    by auto
  obtain evsA eA where s1: "s1 = (evsA, eA)" by (cases s1)
  obtain evsB eB where s2: "s2 = (evsB, eB)" by (cases s2)
  from v1 have A: "pending_decreases eA p = pending_decreases e0 p"
    "last_sale_time eA p = last_sale_time e0 p" "cooldown_seconds eA = cooldown_seconds e0"
    "filter (\<lambda>x. product_name x = p) evsA = []"
    by (simp_all add: view_def s1)
  from v2 have B: "pending_decreases e1 p = pending_decreases eB p"
    "last_sale_time e1 p = last_sale_time eB p"
    "filter (\<lambda>x. product_name x = p) evs1 = filter (\<lambda>x. product_name x = p) evsB"
    by (simp_all add: view_def s2)
  from mem have evin: "ev \<in> set (filter (\<lambda>x. product_name x = p) evs1)"
    by (simp add: p_def)
  have cc: "check_cooldown eA p ts = check_cooldown e0 p ts"
    by (simp add: check_cooldown_def A split: option.splits)
  from product_body_emit[OF b[unfolded s1 s2]] show ?thesis
  proof (elim disjE exE conjE)
    assume "evsB = evsA"
    with evin B A show ?thesis by simp
  next
    fix ev'
    assume e: "evsB = evsA @ [ev']" "product_name ev' = p" "validated ev'" "timestamp_utc ev' = ts"
      "inventory_after ev' = dict_get cur p 0" "check_cooldown eA p ts"
      "last_sale_time eB = (last_sale_time eA)(p \<mapsto> ts)"
      "pending_decreases eB p = Some []"
      "dict_get cur p 0 - dict_get prev p 0 \<le> 0"
      "dict_get cur p 0 - dict_get prev p 0 < 0 \<longrightarrow>
              quantity_delta ev' = dict_get prev p 0 - dict_get cur p 0
              \<and> inventory_before ev' = dict_get prev p 0"
      "dict_get cur p 0 - dict_get prev p 0 = 0 \<longrightarrow>
              (\<exists>t d rest. pending_decreases eA p = Some ((t, d) # rest)
                 \<and> quantity_delta ev' = \<bar>d\<bar>
                 \<and> inventory_before ev' = dict_get prev p 0 + \<bar>d\<bar>)"
    have f: "filter (\<lambda>x. product_name x = p) evs1 = [ev']"
      using B A e by simp
    with evin have eq: "ev = ev'" by simp
    show ?thesis
      using f e cc A B unfolding eq p_def[symmetric] by simp
  qed
qed

lemma distinct_all_products: "distinct (all_products cur prev)"
  by (simp add: all_products_def)

lemma cleanup_pending_decreases_frame:
  "last_sale_time (cleanup_pending_decreases e ts) = last_sale_time e
   \<and> confirm_intervals (cleanup_pending_decreases e ts) = confirm_intervals e
   \<and> min_delta_threshold (cleanup_pending_decreases e ts) = min_delta_threshold e
   \<and> cooldown_seconds (cleanup_pending_decreases e ts) = cooldown_seconds e
   \<and> snapshot_interval (cleanup_pending_decreases e ts) = snapshot_interval e
   \<and> snapshot_history (cleanup_pending_decreases e ts) = snapshot_history e
   \<and> false_positives_filtered (cleanup_pending_decreases e ts) = false_positives_filtered e"
  by (simp add: cleanup_pending_decreases_def Let_def)

lemma validate_total_decrease_frame:
  assumes "validate_total_decrease e d ts = (b, e')"
  shows "last_sale_time e' = last_sale_time e \<and> pending_decreases e' = pending_decreases e
       \<and> confirm_intervals e' = confirm_intervals e
       \<and> min_delta_threshold e' = min_delta_threshold e
       \<and> cooldown_seconds e' = cooldown_seconds e
       \<and> snapshot_interval e' = snapshot_interval e
       \<and> snapshot_history e' = snapshot_history e"
  using assms by (auto simp: validate_total_decrease_def Let_def split: if_splits)

lemma unattributed_fallback_cases:
  assumes "unattributed_fallback ts cur prev (evs1, e1) = (evs, e2)"
  shows "last_sale_time e2 = last_sale_time e1 \<and> pending_decreases e2 = pending_decreases e1
       \<and> confirm_intervals e2 = confirm_intervals e1
       \<and> min_delta_threshold e2 = min_delta_threshold e1
       \<and> cooldown_seconds e2 = cooldown_seconds e1
       \<and> snapshot_interval e2 = snapshot_interval e1
       \<and> snapshot_history e2 = snapshot_history e1
       \<and> (evs = evs1 \<or> (evs1 = [] \<and> (\<exists>u. evs = [u] \<and> \<not> validated u)))"
proof (cases "sum_values cur - sum_values prev < 0 \<and> evs1 = []")
  case True
  obtain b e' where v: "validate_total_decrease e1 (sum_values cur - sum_values prev) ts = (b, e')"
    by (cases "validate_total_decrease e1 (sum_values cur - sum_values prev) ts")
  from validate_total_decrease_frame[OF v] assms True v show ?thesis
    by (cases b) (auto simp: unattributed_fallback_def Let_def)
next
  case False
  with assms show ?thesis
    by (auto simp: unattributed_fallback_def Let_def)
qed

lemma update_statistics_frame:
  "last_sale_time (update_statistics evs e) = last_sale_time e
   \<and> pending_decreases (update_statistics evs e) = pending_decreases e
   \<and> confirm_intervals (update_statistics evs e) = confirm_intervals e
   \<and> min_delta_threshold (update_statistics evs e) = min_delta_threshold e
   \<and> cooldown_seconds (update_statistics evs e) = cooldown_seconds e
   \<and> snapshot_interval (update_statistics evs e) = snapshot_interval e
   \<and> snapshot_history (update_statistics evs e) = snapshot_history e
   \<and> false_positives_filtered (update_statistics evs e) = false_positives_filtered e"
  by (simp add: update_statistics_def)

lemma process_snapshot_config:
  assumes "process_snapshot e inventory ts = Inr (evs, e')"
  shows "confirm_intervals e' = confirm_intervals e \<and> min_delta_threshold e' = min_delta_threshold e
       \<and> cooldown_seconds e' = cooldown_seconds e \<and> snapshot_interval e' = snapshot_interval e"
  using assms
proof (cases rule: process_snapshot_cases)
  case first
  with assms show ?thesis
    by (auto simp: process_snapshot_def Let_def)
next
  case (detect evs1 e1 e2)
  from sales_loop_config[OF detect(3)] unattributed_fallback_cases[OF detect(4)]
    cleanup_pending_decreases_frame[of e1 ts] update_statistics_frame[of evs e2] detect(5)
  show ?thesis by simp
qed




lemma for_each_spaced:
  fixes evs :: "'s \<Rightarrow> 'ev list" and lastm :: "'s \<Rightarrow> 'k \<rightharpoonup> real"
    and key :: "'x \<Rightarrow> 'k" and ekey :: "'ev \<Rightarrow> 'k"
  assumes run: "for_each body xs s = Inr s'" and dist: "distinct (map key xs)" and inv: "I s"
    and step: "\<And>x s t. x \<in> set xs \<Longrightarrow> I s \<Longrightarrow> body x s = Inr t \<Longrightarrow>
       I t \<and> ((evs t = evs s \<and> lastm t = lastm s) \<or>
              (\<exists>a. evs t = evs s @ [a] \<and> ekey a = key x \<and> P a \<and> allowed (lastm s (key x))
                  \<and> lastm t = (lastm s)(key x \<mapsto> ts)))"
  shows "I s' \<and> (\<exists>new. evs s' = evs s @ new \<and> distinct (map ekey new)
           \<and> ekey ` set new \<subseteq> key ` set xs
           \<and> (\<forall>a\<in>set new. P a \<and> allowed (lastm s (ekey a)) \<and> lastm s' (ekey a) = Some ts)
           \<and> (\<forall>k. k \<notin> ekey ` set new \<longrightarrow> lastm s' k = lastm s k))"
  using run dist inv step
proof (induction xs arbitrary: s)
  case Nil
  then show ?case by simp
next
  case (Cons x xs)
  from Cons.prems(1) obtain t where b: "body x s = Inr t" and r: "for_each body xs t = Inr s'"
    by (auto split: sum.splits)
  from Cons.prems(4)[OF _ Cons.prems(3) b] have it: "I t"
    and sh: "(evs t = evs s \<and> lastm t = lastm s) \<or>
              (\<exists>a. evs t = evs s @ [a] \<and> ekey a = key x \<and> P a \<and> allowed (lastm s (key x))
                  \<and> lastm t = (lastm s)(key x \<mapsto> ts))"
    by (simp_all del: fun_upd_apply)
  from Cons.prems(2) have dx: "distinct (map key xs)" and nx: "key x \<notin> key ` set xs"
    by simp_all
  have "I s' \<and> (\<exists>new. evs s' = evs t @ new \<and> distinct (map ekey new)
           \<and> ekey ` set new \<subseteq> key ` set xs
           \<and> (\<forall>a\<in>set new. P a \<and> allowed (lastm t (ekey a)) \<and> lastm s' (ekey a) = Some ts)
           \<and> (\<forall>k. k \<notin> ekey ` set new \<longrightarrow> lastm s' k = lastm t k))"
    by (rule Cons.IH[OF r dx it]) (use Cons.prems(4) in auto)
  then obtain new where is': "I s'" and n: "evs s' = evs t @ new" "distinct (map ekey new)"
    "ekey ` set new \<subseteq> key ` set xs"
    "\<And>a. a \<in> set new \<Longrightarrow> P a \<and> allowed (lastm t (ekey a)) \<and> lastm s' (ekey a) = Some ts"
    "\<And>k. k \<notin> ekey ` set new \<Longrightarrow> lastm s' k = lastm t k"
    by blast
  from sh show ?case
  proof (elim disjE exE conjE)
    assume q: "evs t = evs s" "lastm t = lastm s"
    have "evs s' = evs s @ new \<and> distinct (map ekey new)
           \<and> ekey ` set new \<subseteq> key ` set (x # xs)
           \<and> (\<forall>a\<in>set new. P a \<and> allowed (lastm s (ekey a)) \<and> lastm s' (ekey a) = Some ts)
           \<and> (\<forall>k. k \<notin> ekey ` set new \<longrightarrow> lastm s' k = lastm s k)"
      using n q by auto
    with is' show ?thesis by blast
  next
    fix a
    assume e: "evs t = evs s @ [a]" "ekey a = key x" "P a" "allowed (lastm s (key x))"
      "lastm t = (lastm s)(key x \<mapsto> ts)"
    have fresh: "ekey a \<notin> ekey ` set new" using n(3) nx e(2) by (metis subsetD)
    have 1: "evs s' = evs s @ (a # new)" using n(1) e(1) by simp
    have 2: "distinct (map ekey (a # new))" using n(2) fresh by simp
    have 3: "ekey ` set (a # new) \<subseteq> key ` set (x # xs)" using n(3) e(2) by auto
    have 4: "P b \<and> allowed (lastm s (ekey b)) \<and> lastm s' (ekey b) = Some ts"
      if "b \<in> set (a # new)" for b
    proof (cases "b = a")
      case True
      then show ?thesis using e n(5)[OF fresh] by simp
    next
      case False
      with that have bn: "b \<in> set new" by simp
      then have "ekey b \<in> key ` set xs" using n(3) by blast
      then have "ekey b \<noteq> key x" using nx by metis
      with n(4)[OF bn] e(5) show ?thesis by simp
    qed
    have 5: "lastm s' k = lastm s k" if "k \<notin> ekey ` set (a # new)" for k
    proof -
      from that have "k \<noteq> key x" "k \<notin> ekey ` set new" using e(2) by auto
      with n(5)[of k] e(5) show ?thesis by simp
    qed
    from is' 1 2 3 4 5 show ?thesis by blast
  qed
qed

lemma distinct_dict_items: "distinct (map fst (dict_items d))"
  by (simp add: dict_items_def dict_keys_def comp_def)

lemma dict_items_get:
  assumes "(k, v) \<in> set (dict_items d)"
  shows "dict_get d k dflt = v"
proof -
  from assms have "k \<in> fst ` set d" and v: "v = the (map_of d k)"
    by (auto simp: dict_items_def dict_keys_def)
  then obtain w where "map_of d k = Some w"
    by (metis map_of_eq_None_iff not_Some_eq)
  with v show ?thesis by (simp add: dict_get_def)
qed

lemmas alert_body_defs = pending_lookup_def validate_low_stock_def validate_expiration_def
  check_alert_cooldown_def deque_new_def Let_def

lemma low_stock_body_config:
  assumes "low_stock_body inventory ts item (alerts, e) = Inr (alerts', e')"
  shows "low_stock_thresholds e' = low_stock_thresholds e
       \<and> low_stock_confirm_intervals e' = low_stock_confirm_intervals e
       \<and> expiration_confirm_intervals e' = expiration_confirm_intervals e
       \<and> alert_cooldown_seconds e' = alert_cooldown_seconds e
       \<and> pending_expiration e' = pending_expiration e"
  using assms
  by (cases item)
     (auto simp: low_stock_body_def alert_body_defs
        split: option.splits sum.splits if_splits prod.splits bool.splits)

lemma low_stock_body_emit:
  assumes "low_stock_body inventory ts (p, th) (alerts, e) = Inr (alerts', e')"
  shows "(alerts' = alerts \<and> last_alert_time e' = last_alert_time e) \<or>
     (\<exists>a. alerts' = alerts @ [a] \<and> (alert_type a, alert_product_name a) = (LOW_STOCK, p)
        \<and> alert_timestamp_utc a = ts
        \<and> severity a = (if dict_get inventory p 0 = 0 then CRITICAL else WARNING)
        \<and> metadata a = LowStockMetadata (dict_get inventory p 0) th
             (if dict_get inventory p 0 = 0 then ''out_of_stock'' else ''low_stock'')
        \<and> dict_get inventory p 0 \<le> th
        \<and> (\<forall>t. last_alert_time e (LOW_STOCK, p) = Some t \<longrightarrow> t + alert_cooldown_seconds e \<le> ts)
        \<and> last_alert_time e' = (last_alert_time e)((LOW_STOCK, p) \<mapsto> ts))"
  using assms
  by (auto simp: low_stock_body_def alert_body_defs
        split: option.splits sum.splits if_splits prod.splits bool.splits)

lemma expiration_body_config:
  assumes "expiration_body ts item (alerts, e) = Inr (alerts', e')"
  shows "low_stock_thresholds e' = low_stock_thresholds e
       \<and> low_stock_confirm_intervals e' = low_stock_confirm_intervals e
       \<and> expiration_confirm_intervals e' = expiration_confirm_intervals e
       \<and> alert_cooldown_seconds e' = alert_cooldown_seconds e
       \<and> pending_low_stock e' = pending_low_stock e"
  using assms
  by (cases item)
     (auto simp: expiration_body_def alert_body_defs
        split: option.splits sum.splits if_splits prod.splits bool.splits)

lemma expiration_body_emit:
  assumes "expiration_body ts (p, fd) (alerts, e) = Inr (alerts', e')"
  shows "(alerts' = alerts \<and> last_alert_time e' = last_alert_time e) \<or>
     (\<exists>a. alerts' = alerts @ [a] \<and> (alert_type a, alert_product_name a) = (EXPIRATION, p)
        \<and> alert_timestamp_utc a = ts
        \<and> (\<forall>t. last_alert_time e (EXPIRATION, p) = Some t \<longrightarrow> t + alert_cooldown_seconds e \<le> ts)
        \<and> last_alert_time e' = (last_alert_time e)((EXPIRATION, p) \<mapsto> ts))"
  using assms
  by (auto simp: expiration_body_def alert_body_defs
        split: option.splits sum.splits if_splits prod.splits bool.splits)

lemma distinct_tagged: "distinct (map (\<lambda>x. (c, fst x)) xs) = distinct (map fst xs)"
  by (induction xs) auto

lemma fold_process_alert_frame:
  "last_alert_time (fold process_alert as e) = last_alert_time e
   \<and> alert_cooldown_seconds (fold process_alert as e) = alert_cooldown_seconds e
   \<and> low_stock_thresholds (fold process_alert as e) = low_stock_thresholds e
   \<and> low_stock_confirm_intervals (fold process_alert as e) = low_stock_confirm_intervals e
   \<and> expiration_confirm_intervals (fold process_alert as e) = expiration_confirm_intervals e
   \<and> pending_low_stock (fold process_alert as e) = pending_low_stock e
   \<and> pending_expiration (fold process_alert as e) = pending_expiration e"
  by (induction as arbitrary: e) (simp_all add: process_alert_def Let_def)


lemma expiration_loop_spaced:
  assumes "evaluate_expiration e freshness_state ts = Inr (alerts, e1)"
  shows "alert_cooldown_seconds e1 = alert_cooldown_seconds e
     \<and> distinct (map (\<lambda>a. (alert_type a, alert_product_name a)) alerts)
     \<and> (\<forall>a\<in>set alerts. (alert_timestamp_utc a = ts \<and> alert_type a = EXPIRATION)
           \<and> (\<forall>t. last_alert_time e (alert_type a, alert_product_name a) = Some t
                  \<longrightarrow> t + alert_cooldown_seconds e \<le> ts)
           \<and> last_alert_time e1 (alert_type a, alert_product_name a) = Some ts)
     \<and> (\<forall>k. k \<notin> (\<lambda>a. (alert_type a, alert_product_name a)) ` set alerts
           \<longrightarrow> last_alert_time e1 k = last_alert_time e k)"
proof -
  let ?I = "\<lambda>s :: alert list \<times> alert_engine.
              alert_cooldown_seconds (snd s) = alert_cooldown_seconds e"
  let ?allowed = "\<lambda>l. \<forall>t. l = Some t \<longrightarrow> t + alert_cooldown_seconds e \<le> ts"
  have run: "for_each (expiration_body ts) (dict_items freshness_state) ([], e) = Inr (alerts, e1)"
    using assms by (simp add: evaluate_expiration_def)
  have dist: "distinct (map (\<lambda>x. (EXPIRATION, fst x)) (dict_items freshness_state))"
    by (simp add: distinct_tagged distinct_dict_items)
  have step: "?I t \<and> ((fst t = fst s \<and> last_alert_time (snd t) = last_alert_time (snd s)) \<or>
       (\<exists>a. fst t = fst s @ [a] \<and> (alert_type a, alert_product_name a) = (EXPIRATION, fst x)
           \<and> (alert_timestamp_utc a = ts \<and> alert_type a = EXPIRATION)
           \<and> ?allowed (last_alert_time (snd s) (EXPIRATION, fst x))
           \<and> last_alert_time (snd t) = (last_alert_time (snd s))((EXPIRATION, fst x) \<mapsto> ts)))"
    if "?I s" and "expiration_body ts x s = Inr t" for x s t
  proof -
    obtain p fd where x: "x = (p, fd)" by (cases x)
    obtain as b where s: "s = (as, b)" by (cases s)
    obtain as' b' where t: "t = (as', b')" by (cases t)
    note b = that(2)[unfolded x s t]
    from expiration_body_config[OF b] that(1)
    have c: "alert_cooldown_seconds b' = alert_cooldown_seconds e"
      and cb: "alert_cooldown_seconds b = alert_cooldown_seconds e"
      by (simp_all add: s)
    from expiration_body_emit[OF b] show ?thesis
    proof (elim disjE exE conjE)
      assume "as' = as" "last_alert_time b' = last_alert_time b"
      then show ?thesis using c by (simp add: x s t)
    next
      fix a
      assume "as' = as @ [a]" "(alert_type a, alert_product_name a) = (EXPIRATION, p)"
        "alert_timestamp_utc a = ts"
        "\<forall>t. last_alert_time b (EXPIRATION, p) = Some t \<longrightarrow> t + alert_cooldown_seconds b \<le> ts"
        "last_alert_time b' = (last_alert_time b)((EXPIRATION, p) \<mapsto> ts)"
      then show ?thesis using c cb by (simp add: x s t del: fun_upd_apply)
    qed
  qed
  have res: "?I (alerts, e1) \<and> (\<exists>new. fst (alerts, e1) = fst ([] :: alert list, e) @ new
           \<and> distinct (map (\<lambda>a. (alert_type a, alert_product_name a)) new)
           \<and> (\<lambda>a. (alert_type a, alert_product_name a)) ` set new
                 \<subseteq> (\<lambda>x. (EXPIRATION, fst x)) ` set (dict_items freshness_state)
           \<and> (\<forall>a\<in>set new. (alert_timestamp_utc a = ts \<and> alert_type a = EXPIRATION)
                 \<and> ?allowed (last_alert_time (snd ([] :: alert list, e)) (alert_type a, alert_product_name a))
                 \<and> last_alert_time (snd (alerts, e1)) (alert_type a, alert_product_name a) = Some ts)
           \<and> (\<forall>k. k \<notin> (\<lambda>a. (alert_type a, alert_product_name a)) ` set new
                 \<longrightarrow> last_alert_time (snd (alerts, e1)) k = last_alert_time (snd ([] :: alert list, e)) k))"
    by (rule for_each_spaced[OF run dist, where I = ?I and evs = fst
          and lastm = "\<lambda>s. last_alert_time (snd s)"
          and P = "\<lambda>a. alert_timestamp_utc a = ts \<and> alert_type a = EXPIRATION"
          and allowed = ?allowed and ts = ts])
       (simp, use step in blast)
  then show ?thesis unfolding fst_conv snd_conv append_Nil by blast
qed




lemma validate_decrease_total:
  assumes "- 1 \<le> confirm_intervals e" and "snapshot_history e \<noteq> []"
  shows "\<exists>b. validate_decrease e p ts = Inr b"
proof (cases "int (length (snapshot_history e)) < confirm_intervals e + 1")
  case True
  then have "validate_decrease e p ts = Inr False" by (simp add: validate_decrease_def)
  then show ?thesis by blast
next
  case False
  have "slice_from (- (confirm_intervals e + 1)) (snapshot_history e) \<noteq> []"
    using assms False by (auto simp: slice_from_def)
  then obtain c cs where
    "map (\<lambda>(_, inv). dict_get inv p 0)
       (slice_from (- (confirm_intervals e + 1)) (snapshot_history e)) = c # cs"
    by (cases "slice_from (- (confirm_intervals e + 1)) (snapshot_history e)") auto
  with False show ?thesis by (simp add: validate_decrease_def Let_def)
qed

lemma validate_decrease_pending:
  "validate_decrease (e\<lparr>pending_decreases := pd\<rparr>) p ts = validate_decrease e p ts"
  by (simp add: validate_decrease_def)

lemma product_body_total:
  assumes "- 1 \<le> confirm_intervals e" and "snapshot_history e \<noteq> []"
  shows "\<exists>t. product_body ts cur prev p (evs, e) = Inr t"
proof -
  from validate_decrease_total[OF assms] obtain b where "validate_decrease e p ts = Inr b"
    by blast
  then show ?thesis
    by (simp add: product_body_def Let_def validate_decrease_pending
        split: option.splits list.splits)
qed

lemma sales_loop_total:
  assumes "- 1 \<le> confirm_intervals e" and "snapshot_history e \<noteq> []"
  shows "\<exists>t. for_each (product_body ts cur prev) ps (evs, e) = Inr t"
proof (rule for_each_total[where I = "\<lambda>s. - 1 \<le> confirm_intervals (snd s) \<and> snapshot_history (snd s) \<noteq> []"])
  show "- 1 \<le> confirm_intervals (snd (evs, e)) \<and> snapshot_history (snd (evs, e)) \<noteq> []"
    using assms by simp
next
  fix x and s :: "sale_event list \<times> engine"
  assume i: "- 1 \<le> confirm_intervals (snd s) \<and> snapshot_history (snd s) \<noteq> []"
  obtain a b where s: "s = (a, b)" by (cases s)
  from i s product_body_total[of b ts cur prev x a] obtain t where
    t: "product_body ts cur prev x (a, b) = Inr t" by auto
  obtain c d where cd: "t = (c, d)" by (cases t)
  from product_body_config[OF t[unfolded cd]] i s
  have "- 1 \<le> confirm_intervals (snd t) \<and> snapshot_history (snd t) \<noteq> []"
    by (simp add: cd)
  with t s show "\<exists>t. product_body ts cur prev x s = Inr t
      \<and> - 1 \<le> confirm_intervals (snd t) \<and> snapshot_history (snd t) \<noteq> []"
    by blast
qed

lemma process_snapshot_total:
  assumes "- 1 \<le> confirm_intervals e"
  shows "\<exists>evs e'. process_snapshot e inventory ts = Inr (evs, e')"
proof (cases "length (deque_append (confirm_intervals e + 1) (snapshot_history e) (ts, inventory)) < 2")
  case True
  then show ?thesis by (simp add: process_snapshot_def Let_def)
next
  case False
  define e0 where "e0 = e\<lparr>snapshot_history :=
      deque_append (confirm_intervals e + 1) (snapshot_history e) (ts, inventory)\<rparr>"
  from False have len: "2 \<le> length (snapshot_history e0)" by (simp add: e0_def)
  from False have "2 \<le> length (deque_append (confirm_intervals e + 1) (snapshot_history e) (ts, inventory))"
    by simp
  from deque_append_last2[OF this] obtain older where
    "rev (deque_append (confirm_intervals e + 1) (snapshot_history e) (ts, inventory))
       = (ts, inventory) # last (snapshot_history e) # older"
    by blast
  then obtain x y where rv: "rev (snapshot_history e0) = x # y # older"
    by (simp add: e0_def)
  obtain ct cur where x: "x = (ct, cur)" by (cases x)
  obtain pt prev where y: "y = (pt, prev)" by (cases y)
  have ne: "snapshot_history e0 \<noteq> []" using len by auto
  have ci: "- 1 \<le> confirm_intervals e0" using assms by (simp add: e0_def)
  from sales_loop_total[OF ci ne, of ts cur prev "all_products cur prev" "[]"]
  obtain evs1 e1 where "for_each (product_body ts cur prev) (all_products cur prev) ([], e0)
      = Inr (evs1, e1)" by auto
  then have "\<exists>r. detect_attributed_sales e0 ts = Inr r"
    by (simp add: detect_attributed_sales_def rv x y)
  then show ?thesis
    using False by (auto simp: process_snapshot_def Let_def e0_def split: prod.splits)
qed

lemma process_all_total:
  assumes "- 1 \<le> confirm_intervals e"
  shows "\<exists>out e'. process_all e snaps = Inr (out, e')"
  using assms
proof (induction snaps arbitrary: e)
  case Nil
  then show ?case by simp
next
  case (Cons snap rest)
  obtain inventory ts where snap: "snap = (inventory, ts)" by (cases snap)
  from process_snapshot_total[OF Cons.prems] obtain evs e1 where
    st: "process_snapshot e inventory ts = Inr (evs, e1)" by blast
  from process_snapshot_config[OF st] Cons.prems have "- 1 \<le> confirm_intervals e1" by simp
  from Cons.IH[OF this] obtain out e' where "process_all e1 rest = Inr (out, e')" by blast
  with st show ?case by (simp add: snap)
qed

lemma low_stock_body_total:
  assumes "(- 1 \<le> low_stock_confirm_intervals e \<and> low_stock_confirm_intervals e < 9223372036854775807)"
  shows "\<exists>t. low_stock_body inventory ts item (alerts, e) = Inr t"
  using assms
  by (cases item)
     (auto simp: low_stock_body_def alert_body_defs
        split: option.splits sum.splits prod.splits bool.splits)

lemma expiration_body_total:
  assumes "(- 1 \<le> expiration_confirm_intervals e \<and> expiration_confirm_intervals e < 9223372036854775807)"
  shows "\<exists>t. expiration_body ts item (alerts, e) = Inr t"
  using assms
  by (cases item)
     (auto simp: expiration_body_def alert_body_defs
        split: option.splits sum.splits prod.splits bool.splits)

lemma evaluate_low_stock_total:
  assumes "(- 1 \<le> low_stock_confirm_intervals e \<and> low_stock_confirm_intervals e < 9223372036854775807)"
  shows "\<exists>t. evaluate_low_stock e inventory ts = Inr t"
  unfolding evaluate_low_stock_def
proof (rule for_each_total[where I = "\<lambda>s. (- 1 \<le> low_stock_confirm_intervals (snd s) \<and> low_stock_confirm_intervals (snd s) < 9223372036854775807)"])
  show "(- 1 \<le> low_stock_confirm_intervals (snd ([] :: alert list, e)) \<and> low_stock_confirm_intervals (snd ([] :: alert list, e)) < 9223372036854775807)" using assms by simp
next
  fix x and s :: "alert list \<times> alert_engine"
  assume i: "(- 1 \<le> low_stock_confirm_intervals (snd s) \<and> low_stock_confirm_intervals (snd s) < 9223372036854775807)"
  obtain a b where s: "s = (a, b)" by (cases s)
  from i s low_stock_body_total[of b inventory ts x a] obtain t where
    t: "low_stock_body inventory ts x (a, b) = Inr t" by auto
  obtain c d where cd: "t = (c, d)" by (cases t)
  from low_stock_body_config[OF t[unfolded cd]] i s
  have "(- 1 \<le> low_stock_confirm_intervals (snd t) \<and> low_stock_confirm_intervals (snd t) < 9223372036854775807)" by (simp add: cd)
  with t s show "\<exists>t. low_stock_body inventory ts x s = Inr t
      \<and> (- 1 \<le> low_stock_confirm_intervals (snd t) \<and> low_stock_confirm_intervals (snd t) < 9223372036854775807)"
    by blast
qed

lemma evaluate_expiration_total:
  assumes "(- 1 \<le> expiration_confirm_intervals e \<and> expiration_confirm_intervals e < 9223372036854775807)"
  shows "\<exists>t. evaluate_expiration e freshness_state ts = Inr t"
  unfolding evaluate_expiration_def
proof (rule for_each_total[where I = "\<lambda>s. (- 1 \<le> expiration_confirm_intervals (snd s) \<and> expiration_confirm_intervals (snd s) < 9223372036854775807)"])
  show "(- 1 \<le> expiration_confirm_intervals (snd ([] :: alert list, e)) \<and> expiration_confirm_intervals (snd ([] :: alert list, e)) < 9223372036854775807)" using assms by simp
next
  fix x and s :: "alert list \<times> alert_engine"
  assume i: "(- 1 \<le> expiration_confirm_intervals (snd s) \<and> expiration_confirm_intervals (snd s) < 9223372036854775807)"
  obtain a b where s: "s = (a, b)" by (cases s)
  from i s expiration_body_total[of b ts x a] obtain t where
    t: "expiration_body ts x (a, b) = Inr t" by auto
  obtain c d where cd: "t = (c, d)" by (cases t)
  from expiration_body_config[OF t[unfolded cd]] i s
  have "(- 1 \<le> expiration_confirm_intervals (snd t) \<and> expiration_confirm_intervals (snd t) < 9223372036854775807)" by (simp add: cd)
  with t s show "\<exists>t. expiration_body ts x s = Inr t
      \<and> (- 1 \<le> expiration_confirm_intervals (snd t) \<and> expiration_confirm_intervals (snd t) < 9223372036854775807)"
    by blast
qed

lemma low_stock_loop_config:
  assumes "evaluate_low_stock e inventory ts = Inr (alerts, e1)"
  shows "low_stock_thresholds e1 = low_stock_thresholds e
       \<and> low_stock_confirm_intervals e1 = low_stock_confirm_intervals e
       \<and> expiration_confirm_intervals e1 = expiration_confirm_intervals e
       \<and> alert_cooldown_seconds e1 = alert_cooldown_seconds e
       \<and> pending_expiration e1 = pending_expiration e"
proof -
  have "for_each (low_stock_body inventory ts) xs (as, e) = Inr (alerts, e1) \<Longrightarrow> ?thesis" for xs as
  proof (induction xs arbitrary: as e)
    case Nil
    then show ?case by simp
  next
    case (Cons x xs)
    from Cons.prems obtain as' e' where b: "low_stock_body inventory ts x (as, e) = Inr (as', e')"
      and r: "for_each (low_stock_body inventory ts) xs (as', e') = Inr (alerts, e1)"
      by (auto split: sum.splits)
    from low_stock_body_config[OF b] Cons.IH[OF r] show ?case by simp
  qed
  then show ?thesis using assms by (simp add: evaluate_low_stock_def)
qed

lemma expiration_loop_config:
  assumes "evaluate_expiration e freshness_state ts = Inr (alerts, e1)"
  shows "low_stock_thresholds e1 = low_stock_thresholds e
       \<and> low_stock_confirm_intervals e1 = low_stock_confirm_intervals e
       \<and> expiration_confirm_intervals e1 = expiration_confirm_intervals e
       \<and> alert_cooldown_seconds e1 = alert_cooldown_seconds e
       \<and> pending_low_stock e1 = pending_low_stock e"
proof -
  have "for_each (expiration_body ts) xs (as, e) = Inr (alerts, e1) \<Longrightarrow> ?thesis" for xs as
  proof (induction xs arbitrary: as e)
    case Nil
    then show ?case by simp
  next
    case (Cons x xs)
    from Cons.prems obtain as' e' where b: "expiration_body ts x (as, e) = Inr (as', e')"
      and r: "for_each (expiration_body ts) xs (as', e') = Inr (alerts, e1)"
      by (auto split: sum.splits)
    from expiration_body_config[OF b] Cons.IH[OF r] show ?case by simp
  qed
  then show ?thesis using assms by (simp add: evaluate_expiration_def)
qed

lemma evaluate_config:
  assumes "evaluate e inventory freshness_state ts = Inr (alerts, e')"
  shows "low_stock_thresholds e' = low_stock_thresholds e
       \<and> low_stock_confirm_intervals e' = low_stock_confirm_intervals e
       \<and> expiration_confirm_intervals e' = expiration_confirm_intervals e
       \<and> alert_cooldown_seconds e' = alert_cooldown_seconds e"
proof -
  from assms obtain A1 e1 A2 e2 where
    l1: "evaluate_low_stock e inventory ts = Inr (A1, e1)"
    and l2: "evaluate_expiration e1 freshness_state ts = Inr (A2, e2)"
    and e': "e' = fold process_alert (A1 @ A2) e2"
    by (auto simp: evaluate_def Let_def split: sum.splits prod.splits)
  from low_stock_loop_config[OF l1] expiration_loop_config[OF l2] show ?thesis
    by (simp add: e' fold_process_alert_frame)
qed

lemma evaluate_total:
  assumes "(- 1 \<le> low_stock_confirm_intervals e \<and> low_stock_confirm_intervals e < 9223372036854775807)" and "(- 1 \<le> expiration_confirm_intervals e \<and> expiration_confirm_intervals e < 9223372036854775807)"
  shows "\<exists>alerts e'. evaluate e inventory freshness_state ts = Inr (alerts, e')"
proof -
  from evaluate_low_stock_total[OF assms(1)] obtain A1 e1 where
    l1: "evaluate_low_stock e inventory ts = Inr (A1, e1)" by fastforce
  from low_stock_loop_config[OF l1] assms(2) have "(- 1 \<le> expiration_confirm_intervals e1 \<and> expiration_confirm_intervals e1 < 9223372036854775807)" by simp
  from evaluate_expiration_total[OF this] obtain A2 e2 where
    "evaluate_expiration e1 freshness_state ts = Inr (A2, e2)" by fastforce
  with l1 show ?thesis by (simp add: evaluate_def Let_def)
qed

lemma evaluate_all_total:
  assumes "(- 1 \<le> low_stock_confirm_intervals e \<and> low_stock_confirm_intervals e < 9223372036854775807)" and "(- 1 \<le> expiration_confirm_intervals e \<and> expiration_confirm_intervals e < 9223372036854775807)"
  shows "\<exists>out e'. evaluate_all e ticks = Inr (out, e')"
  using assms
proof (induction ticks arbitrary: e)
  case Nil
  then show ?case by simp
next
  case (Cons tick rest)
  obtain inventory fs ts where tick: "tick = (inventory, fs, ts)" by (cases tick)
  from evaluate_total[OF Cons.prems] obtain alerts e1 where
    st: "evaluate e inventory fs ts = Inr (alerts, e1)" by blast
  from evaluate_config[OF st] Cons.prems
  have "(- 1 \<le> low_stock_confirm_intervals e1 \<and> low_stock_confirm_intervals e1 < 9223372036854775807)" "(- 1 \<le> expiration_confirm_intervals e1 \<and> expiration_confirm_intervals e1 < 9223372036854775807)" by simp_all
  from Cons.IH[OF this] obtain out e' where "evaluate_all e1 rest = Inr (out, e')" by blast
  with st show ?case by (simp add: tick)
qed

section \<open>Concrete runs\<close>

lemmas sales_eval = replay_def replay_state_def SalesAttributionEngine_init_def deque_new_def
  process_snapshot_def
  deque_append_def detect_attributed_sales_def all_products_def dict_keys_def dict_get_def
  product_body_def validate_decrease_def slice_from_def check_cooldown_def
  cleanup_pending_decreases_def unattributed_fallback_def validate_total_decrease_def
  sum_values_def dict_items_def update_statistics_def Let_def

lemmas alert_eval = alert_replay_def alert_replay_state_def AlertEngine_init_def deque_new_def
  evaluate_def evaluate_low_stock_def evaluate_expiration_def low_stock_body_def expiration_body_def
  pending_lookup_def validate_low_stock_def validate_expiration_def check_alert_cooldown_def
  deque_append_def dict_items_def dict_keys_def dict_get_def process_alert_def alert_id_def Let_def



lemma unknown_twice: "replay 2 2 10 5
     [([(''a'', 10), (''b'', 10), (''c'', 10), (''d'', 10)], 0),
      ([(''a'', 9), (''b'', 9), (''c'', 9), (''d'', 9)], 5),
      ([(''a'', 8), (''b'', 8), (''c'', 8), (''d'', 8)], 10),
      ([(''a'', 7), (''b'', 7), (''c'', 7), (''d'', 7)], 15)]
   = Inr [[], [],
       [\<lparr>product_name = ''Unknown'', quantity_delta = 4, inventory_before = 36,
         inventory_after = 32, timestamp_utc = 10, validated = False\<rparr>],
       [\<lparr>product_name = ''Unknown'', quantity_delta = 4, inventory_before = 32,
         inventory_after = 28, timestamp_utc = 15, validated = False\<rparr>]]"
  by (simp add: sales_eval)


lemma two_alerts: "alert_replay (Some [(''mango'', 3)]) 2 2 10
     [([(''mango'', 2)], [(''mango'', \<lparr>is_expired = Some True, age_days = Some 6,
          expiration_days = Some 5, first_seen_utc = Some 0\<rparr>)], 0),
      ([(''mango'', 2)], [(''mango'', \<lparr>is_expired = Some True, age_days = Some 6,
          expiration_days = Some 5, first_seen_utc = Some 0\<rparr>)], 5),
      ([(''mango'', 0)], [(''mango'', \<lparr>is_expired = Some True, age_days = Some 6,
          expiration_days = Some 5, first_seen_utc = Some 0\<rparr>)], 10),
      ([(''mango'', 0)], [(''mango'', \<lparr>is_expired = Some True, age_days = Some 6,
          expiration_days = Some 5, first_seen_utc = Some 0\<rparr>)], 15)]
   = Inr [[],
       [\<lparr>alert_type = LOW_STOCK, alert_product_name = ''mango'', severity = WARNING,
         alert_timestamp_utc = 5, metadata = LowStockMetadata 2 3 ''low_stock''\<rparr>,
        \<lparr>alert_type = EXPIRATION, alert_product_name = ''mango'', severity = WARNING,
         alert_timestamp_utc = 5, metadata = ExpirationMetadata 6 5 (Some 0)\<rparr>],
       [],
       [\<lparr>alert_type = LOW_STOCK, alert_product_name = ''mango'', severity = CRITICAL,
         alert_timestamp_utc = 15, metadata = LowStockMetadata 0 3 ''out_of_stock''\<rparr>,
        \<lparr>alert_type = EXPIRATION, alert_product_name = ''mango'', severity = WARNING,
         alert_timestamp_utc = 15, metadata = ExpirationMetadata 6 5 (Some 0)\<rparr>]]"
  by (simp add: alert_eval)

section \<open>Cooldown\<close>




lemma process_all_snoc:
  "process_all e (snaps @ [(inventory, ts)]) =
     (case process_all e snaps of
        Inl err \<Rightarrow> Inl err
      | Inr (out, e1) \<Rightarrow>
          (case process_snapshot e1 inventory ts of
             Inl err \<Rightarrow> Inl err
           | Inr (evs, e2) \<Rightarrow> Inr (out @ [evs], e2)))"
  by (induction snaps arbitrary: e) (auto split: sum.splits prod.splits)

lemma replay_last_tick:
  assumes "replay ci mdt cd si (snaps @ [(inventory, ts)]) = Inr out"
  shows "\<exists>e1 e2. replay_state ci mdt cd si snaps = Inr e1
       \<and> process_snapshot e1 inventory ts = Inr (last out, e2)
       \<and> replay ci mdt cd si snaps = Inr (butlast out)"
  using assms
  by (auto simp: replay_def replay_state_def process_all_snoc split: sum.splits prod.splits)

section \<open>Fields of an attributed sale\<close>

text \<open>
  C2. The claim is that an attributed sale reports the absolute value of the earliest
  pending delta as its quantity and the count before the first pending tick as
  \<open>inventory_before\<close>, also when the confirming tick carries a further decrease. The
  source computes the quantity under the comment \<^verbatim>\<open># Get the total decrease amount\<close>,
  and its test suite expects 3 for 10, 7, 7; but on a confirming tick with a negative
  delta it takes that delta alone. For 10, 8, 7 with \<open>confirm_intervals = 2\<close> the queue
  before the third tick holds the delta \<open>-2\<close> of second 5; the event of the third tick
  has quantity 1 and \<open>inventory_before\<close> 8, and the queue is cleared, so the two units
  are never reported. For 10, 8, 7, 7 with \<open>confirm_intervals = 3\<close> the event has
  quantity 2 and \<open>inventory_before\<close> 9, a count no snapshot had.
\<close>

theorem multi_step_sale_uses_last_delta:
  "map_sum id (\<lambda>e. pending_decreases e ''mango'')
     (replay_state 2 1 10 5 [([(''mango'', 10)], 0), ([(''mango'', 8)], 5)])
   = Inr (Some [(5, - 2)])
   \<and> replay 2 1 10 5 [([(''mango'', 10)], 0), ([(''mango'', 8)], 5), ([(''mango'', 7)], 10)]
   = Inr [[], [],
       [\<lparr>product_name = ''mango'', quantity_delta = 1, inventory_before = 8,
         inventory_after = 7, timestamp_utc = 10, validated = True\<rparr>]]
   \<and> map_sum id (\<lambda>e. pending_decreases e ''mango'')
     (replay_state 2 1 10 5 [([(''mango'', 10)], 0), ([(''mango'', 8)], 5), ([(''mango'', 7)], 10)])
   = Inr None
   \<and> replay 3 1 10 5
       [([(''mango'', 10)], 0), ([(''mango'', 8)], 5), ([(''mango'', 7)], 10), ([(''mango'', 7)], 15)]
   = Inr [[], [], [],
       [\<lparr>product_name = ''mango'', quantity_delta = 2, inventory_before = 9,
         inventory_after = 7, timestamp_utc = 15, validated = True\<rparr>]]"
  by (simp add: sales_eval)

text \<open>
  What the source computes for every attributed sale event of a tick:
  \<open>inventory_after\<close> is the product's current count. When the product's delta on the
  confirming tick is negative, the quantity is the absolute value of that delta and
  \<open>inventory_before\<close> is the count of the previous snapshot. When the delta is zero, the
  quantity is the absolute value of the earliest pending delta and \<open>inventory_before\<close>
  is the unchanged count plus that quantity. No attributed event is emitted on a
  positive delta.
\<close>

lemma attributed_event_fields:
  assumes "process_snapshot e inventory ts = Inr (evs, e')"
    and "ev \<in> set evs" and "validated ev"
  shows "snapshot_history e \<noteq> []
     \<and> inventory_after ev = dict_get inventory (product_name ev) 0
     \<and> dict_get inventory (product_name ev) 0
         \<le> dict_get (snd (last (snapshot_history e))) (product_name ev) 0
     \<and> (dict_get inventory (product_name ev) 0
           < dict_get (snd (last (snapshot_history e))) (product_name ev) 0 \<longrightarrow>
         quantity_delta ev = dict_get (snd (last (snapshot_history e))) (product_name ev) 0
                              - dict_get inventory (product_name ev) 0
         \<and> inventory_before ev = dict_get (snd (last (snapshot_history e))) (product_name ev) 0)
     \<and> (dict_get inventory (product_name ev) 0
           = dict_get (snd (last (snapshot_history e))) (product_name ev) 0 \<longrightarrow>
         (\<exists>t d rest. pending_decreases e (product_name ev) = Some ((t, d) # rest)
            \<and> quantity_delta ev = \<bar>d\<bar>
            \<and> inventory_before ev = dict_get inventory (product_name ev) 0 + \<bar>d\<bar>))"
  using assms(1)
proof (cases rule: process_snapshot_cases)
  case first
  with assms(2) show ?thesis by simp
next
  case (detect evs1 e1 e2)
  from unattributed_fallback_cases[OF detect(4)] assms(2,3) have "ev \<in> set evs1"
    by auto
  from sales_loop_event[OF detect(3) distinct_all_products this] detect(1)
  show ?thesis by auto
qed

lemma consistent_decrease_sorted:
  "consistent_decrease xs = sorted_wrt (\<lambda>a b. b < a) xs"
proof (induction xs rule: consistent_decrease.induct)
  case (1 a b rest)
  then show ?case by (auto simp: not_le)
qed simp_all

lemma sum_values_set:
  "sum_values d = (\<Sum>k\<in>set (dict_keys d). dict_get d k 0)"
proof -
  have "sum_values d = sum_list (map (\<lambda>k. the (map_of d k)) (dict_keys d))"
    by (simp add: sum_values_def dict_items_def comp_def)
  also have "\<dots> = sum_list (map (\<lambda>k. dict_get d k 0) (dict_keys d))"
  proof (rule arg_cong[where f = sum_list], rule map_cong[OF refl])
    fix k assume "k \<in> set (dict_keys d)"
    then have "k \<in> fst ` set d" by (simp add: dict_keys_def)
    then obtain w where "map_of d k = Some w"
      by (metis map_of_eq_None_iff not_Some_eq)
    then show "the (map_of d k) = dict_get d k 0" by (simp add: dict_get_def)
  qed
  also have "\<dots> = (\<Sum>k\<in>set (dict_keys d). dict_get d k 0)"
    by (rule sum_list_distinct_conv_sum_set) (simp add: dict_keys_def)
  finally show ?thesis .
qed

lemma dict_get_absent: "k \<notin> set (dict_keys d) \<Longrightarrow> dict_get d k (0::int) = 0"
  by (simp add: dict_keys_def dict_get_def map_of_eq_None_iff[THEN iffD2])

lemma sum_deltas:
  "sum_list (map (\<lambda>p. dict_get cur p 0 - dict_get prev p 0) (all_products cur prev))
   = sum_values cur - sum_values prev"
proof -
  let ?U = "set (dict_keys cur) \<union> set (dict_keys prev)"
  have "sum_list (map (\<lambda>p. dict_get cur p 0 - dict_get prev p 0) (all_products cur prev))
        = (\<Sum>p\<in>?U. dict_get cur p 0 - dict_get prev p 0)"
    by (subst sum_list_distinct_conv_sum_set) (simp_all add: all_products_def)
  also have "\<dots> = (\<Sum>p\<in>?U. dict_get cur p 0) - (\<Sum>p\<in>?U. dict_get prev p 0)"
    by (simp add: sum_subtractf)
  also have "(\<Sum>p\<in>?U. dict_get cur p 0) = (\<Sum>p\<in>set (dict_keys cur). dict_get cur p 0)"
    by (rule sum.mono_neutral_right) (auto simp: dict_get_absent)
  also have "(\<Sum>p\<in>?U. dict_get prev p 0) = (\<Sum>p\<in>set (dict_keys prev). dict_get prev p 0)"
    by (rule sum.mono_neutral_right) (auto simp: dict_get_absent)
  finally show ?thesis by (simp add: sum_values_set)
qed

lemma validate_total_decrease_iff:
  assumes "0 \<le> confirm_intervals e"
  shows "fst (validate_total_decrease e d ts) \<longleftrightarrow>
     (min_delta_threshold e * 2 \<le> \<bar>d\<bar>
      \<and> (\<exists>older recent. snapshot_history e = older @ recent
            \<and> int (length recent) = confirm_intervals e + 1
            \<and> sorted_wrt (\<lambda>a b. b < a) (map (\<lambda>s. sum_values (snd s)) recent)))"
proof -
  let ?h = "snapshot_history e"
  let ?n = "nat (confirm_intervals e + 1)"
  let ?W = "\<lambda>recent. sorted_wrt (\<lambda>a b. b < a) (map (\<lambda>s. sum_values (snd s)) recent)"
  have sl: "slice_from (- confirm_intervals e - 1) ?h = drop (length ?h - ?n) ?h"
    using assms by (simp add: slice_from_def) (metis add.commute minus_add_distrib uminus_add_conv_diff)
  have win: "(\<exists>older recent. ?h = older @ recent \<and> int (length recent) = confirm_intervals e + 1
               \<and> ?W recent)
             \<longleftrightarrow> (confirm_intervals e + 1 \<le> int (length ?h) \<and> ?W (drop (length ?h - ?n) ?h))"
  proof
    assume "\<exists>older recent. ?h = older @ recent \<and> int (length recent) = confirm_intervals e + 1
               \<and> ?W recent"
    then obtain older recent where h: "?h = older @ recent"
      and l: "int (length recent) = confirm_intervals e + 1" and w: "?W recent" by blast
    from l have "length recent = ?n" by simp
    then have "drop (length ?h - ?n) ?h = recent" by (simp add: h)
    with w l h show "confirm_intervals e + 1 \<le> int (length ?h) \<and> ?W (drop (length ?h - ?n) ?h)"
      by simp
  next
    assume r: "confirm_intervals e + 1 \<le> int (length ?h) \<and> ?W (drop (length ?h - ?n) ?h)"
    then have "?n \<le> length ?h" using assms by linarith
    then have "length (drop (length ?h - ?n) ?h) = ?n" by simp
    then have "int (length (drop (length ?h - ?n) ?h)) = confirm_intervals e + 1"
      using assms by linarith
    moreover have "?h = take (length ?h - ?n) ?h @ drop (length ?h - ?n) ?h" by simp
    ultimately show "\<exists>older recent. ?h = older @ recent
        \<and> int (length recent) = confirm_intervals e + 1 \<and> ?W recent"
      using r by blast
  qed
  have sp: "(\<lambda>(_, inv). sum_values inv) = (\<lambda>s :: real \<times> inventory. sum_values (snd s))"
    by auto
  have "fst (validate_total_decrease e d ts) \<longleftrightarrow>
      (min_delta_threshold e * 2 \<le> \<bar>d\<bar> \<and> confirm_intervals e + 1 \<le> int (length ?h)
       \<and> ?W (drop (length ?h - ?n) ?h))"
    by (simp add: validate_total_decrease_def Let_def sl consistent_decrease_sorted
          sp not_less)
  with win show ?thesis by simp
qed

lemma validate_total_decrease_counter:
  "false_positives_filtered (snd (validate_total_decrease e d ts)) =
     (if fst (validate_total_decrease e d ts)
         \<or> (min_delta_threshold e * 2 \<le> \<bar>d\<bar>
             \<and> int (length (snapshot_history e)) < confirm_intervals e + 1)
      then false_positives_filtered e else false_positives_filtered e + 1)"
  by (simp add: validate_total_decrease_def Let_def)

lemma deque_append_two:
  assumes "q \<noteq> []" and "1 \<le> m"
  shows "2 \<le> length (deque_append (m + 1) q x)"
proof -
  from assms(1) have "1 \<le> length q" by (cases q) auto
  then show ?thesis
    using assms(2) by (auto simp: deque_append_def Let_def)
qed

section \<open>The unattributed fallback\<close>

text \<open>
  C3. On a tick that has a previous snapshot, where the sum of the per-entity deltas is
  negative and no attributed sale is returned, an Unknown sale is returned if and only
  if the total decrease is at least \<open>2 * min_delta_threshold\<close> and the retained history
  ends in \<open>confirm_intervals + 1\<close> snapshots whose totals are strictly decreasing. A tie
  or an increase in a full window returns nothing and adds one to
  \<open>false_positives_filtered\<close>, and so does a decrease below \<open>2 * min_delta_threshold\<close>.
  An Unknown sale carries the total decrease and the two totals.
\<close>

theorem unattributed_fallback_gate:
  fixes e :: engine and inventory :: inventory and ts :: real
  defines "prev \<equiv> snd (last (snapshot_history e))"
    and "hist \<equiv> deque_append (confirm_intervals e + 1) (snapshot_history e) (ts, inventory)"
  defines "total_delta \<equiv>
      sum_list (map (\<lambda>p. dict_get inventory p 0 - dict_get prev p 0) (all_products inventory prev))"
    and "decreasing \<equiv> (\<exists>older recent. hist = older @ recent
            \<and> int (length recent) = confirm_intervals e + 1
            \<and> sorted_wrt (\<lambda>a b. b < a) (map (\<lambda>s. sum_values (snd s)) recent))"
  assumes step: "process_snapshot e inventory ts = Inr (evs, e')"
    and before: "snapshot_history e \<noteq> []" and ci: "1 \<le> confirm_intervals e"
    and neg: "total_delta < 0"
    and none: "\<forall>ev\<in>set evs. \<not> validated ev"
  shows "((\<exists>ev\<in>set evs. product_name ev = ''Unknown'' \<and> \<not> validated ev)
           \<longleftrightarrow> 2 * min_delta_threshold e \<le> \<bar>total_delta\<bar> \<and> decreasing)
     \<and> (2 * min_delta_threshold e \<le> \<bar>total_delta\<bar>
          \<and> confirm_intervals e + 1 \<le> int (length hist) \<and> \<not> decreasing
          \<longrightarrow> evs = [] \<and> false_positives_filtered e' = false_positives_filtered e + 1)
     \<and> (\<bar>total_delta\<bar> < 2 * min_delta_threshold e
          \<longrightarrow> evs = [] \<and> false_positives_filtered e' = false_positives_filtered e + 1)
     \<and> (evs = [] \<or>
          evs = [\<lparr>product_name = ''Unknown'', quantity_delta = \<bar>total_delta\<bar>,
                  inventory_before = sum_values prev, inventory_after = sum_values inventory,
                  timestamp_utc = ts, validated = False\<rparr>])"
  using step
proof (cases rule: process_snapshot_cases)
  case first
  from deque_append_two[OF before ci, of "(ts, inventory)"] first(5) have False by linarith
  then show ?thesis ..
next
  case (detect evs1 e1 e2)
  let ?E = "cleanup_pending_decreases e1 ts"
  have td: "total_delta = sum_values inventory - sum_values prev"
    unfolding total_delta_def by (rule sum_deltas)
  note lc = sales_loop_config[OF detect(3)]
  have cfg: "confirm_intervals ?E = confirm_intervals e" "min_delta_threshold ?E = min_delta_threshold e"
    "snapshot_history ?E = hist" "false_positives_filtered ?E = false_positives_filtered e"
    using lc by (simp_all add: cleanup_pending_decreases_frame hist_def)
  have val1: "\<forall>x\<in>set evs1. validated x"
    using sales_loop_event[OF detect(3) distinct_all_products] by blast
  from unattributed_fallback_cases[OF detect(4)] none val1 have nil: "evs1 = []"
    by (cases evs1) auto
  obtain b E' where v: "validate_total_decrease ?E total_delta ts = (b, E')"
    by (cases "validate_total_decrease ?E total_delta ts")
  have b: "b \<longleftrightarrow> 2 * min_delta_threshold e \<le> \<bar>total_delta\<bar> \<and> decreasing"
    using validate_total_decrease_iff[of ?E total_delta ts] ci v
    by (simp add: cfg decreasing_def mult.commute)
  have fpf: "false_positives_filtered E' =
     (if b \<or> (min_delta_threshold e * 2 \<le> \<bar>total_delta\<bar>
             \<and> int (length hist) < confirm_intervals e + 1)
      then false_positives_filtered e else false_positives_filtered e + 1)"
    using validate_total_decrease_counter[of ?E total_delta ts] v by (simp add: cfg)
  from detect(4) nil neg v have res:
    "evs = (if b then [\<lparr>product_name = ''Unknown'', quantity_delta = \<bar>total_delta\<bar>,
                  inventory_before = sum_values prev, inventory_after = sum_values inventory,
                  timestamp_utc = ts, validated = False\<rparr>] else [])"
    "e2 = E'"
    by (auto simp: unattributed_fallback_def Let_def td prev_def split: bool.splits)
  have fpf': "false_positives_filtered e' = false_positives_filtered E'"
    using detect(5) res(2) by (simp add: update_statistics_frame)
  show ?thesis
    using b fpf res(1) unfolding fpf' by (cases b) (auto simp: mult.commute)
qed

lemma process_all_config:
  assumes "process_all e snaps = Inr (out, e')"
  shows "confirm_intervals e' = confirm_intervals e \<and> min_delta_threshold e' = min_delta_threshold e
       \<and> cooldown_seconds e' = cooldown_seconds e \<and> snapshot_interval e' = snapshot_interval e"
  using assms
proof (induction snaps arbitrary: e out)
  case Nil
  then show ?case by simp
next
  case (Cons snap rest)
  obtain inventory ts where snap: "snap = (inventory, ts)" by (cases snap)
  from Cons.prems obtain evs e1 out' where
    st: "process_snapshot e inventory ts = Inr (evs, e1)"
    and run: "process_all e1 rest = Inr (out', e')"
    by (auto simp: snap split: sum.splits prod.splits)
  from process_snapshot_config[OF st] Cons.IH[OF run] show ?case by simp
qed

lemma replay_state_config:
  assumes "replay_state ci mdt cd si snaps = Inr e"
  shows "confirm_intervals e = ci \<and> min_delta_threshold e = mdt
       \<and> cooldown_seconds e = cd \<and> snapshot_interval e = si"
proof -
  from assms obtain e0 out where i: "SalesAttributionEngine_init ci mdt cd si = Inr e0"
    and r: "process_all e0 snaps = Inr (out, e)"
    by (auto simp: replay_state_def split: sum.splits prod.splits)
  from i have "confirm_intervals e0 = ci \<and> min_delta_threshold e0 = mdt
       \<and> cooldown_seconds e0 = cd \<and> snapshot_interval e0 = si"
    by (auto simp: SalesAttributionEngine_init_def deque_new_def split: if_splits)
  with process_all_config[OF r] show ?thesis by simp
qed

theorem unattributed_fallback_gate_witness:
  "replay 2 2 10 5
     [([(''a'', 10), (''b'', 10), (''c'', 10), (''d'', 10)], 0),
      ([(''a'', 9), (''b'', 9), (''c'', 9), (''d'', 9)], 5),
      ([(''a'', 8), (''b'', 8), (''c'', 8), (''d'', 8)], 10)]
   = Inr [[], [],
       [\<lparr>product_name = ''Unknown'', quantity_delta = 4, inventory_before = 36,
         inventory_after = 32, timestamp_utc = 10, validated = False\<rparr>]]
   \<and> (2 * 2 \<le> \<bar>sum_list (map (\<lambda>p. dict_get [(''a'', 8), (''b'', 8), (''c'', 8), (''d'', 8 :: int)] p 0
                                   - dict_get [(''a'', 9), (''b'', 9), (''c'', 9), (''d'', 9)] p 0)
                  (all_products [(''a'', 8), (''b'', 8), (''c'', 8), (''d'', 8)]
                                [(''a'', 9), (''b'', 9), (''c'', 9), (''d'', 9)]))\<bar>)
   \<and> (\<exists>older recent.
         [(0, [(''a'', 10), (''b'', 10), (''c'', 10), (''d'', 10)]),
          (5, [(''a'', 9), (''b'', 9), (''c'', 9), (''d'', 9)]),
          (10, [(''a'', 8), (''b'', 8), (''c'', 8), (''d'', 8)])] = older @ recent
         \<and> int (length recent) = 2 + 1
         \<and> sorted_wrt (\<lambda>a b. b < a) (map (\<lambda>s :: real \<times> inventory. sum_values (snd s)) recent))"
proof -
  let ?s1 = "([(''a'', 10), (''b'', 10), (''c'', 10), (''d'', 10)], 0 :: real)"
  let ?s2 = "([(''a'', 9), (''b'', 9), (''c'', 9), (''d'', 9)], 5 :: real)"
  let ?i3 = "[(''a'', 8), (''b'', 8), (''c'', 8), (''d'', 8 :: int)]"
  let ?u = "\<lparr>product_name = ''Unknown'', quantity_delta = 4, inventory_before = 36,
         inventory_after = 32, timestamp_utc = 10, validated = False\<rparr>"
  have run: "replay 2 2 10 5 ([?s1, ?s2] @ [(?i3, 10)]) = Inr [[], [], [?u]]"
    by (simp add: sales_eval)
  have hist: "map_sum id snapshot_history (replay_state 2 2 10 5 [?s1, ?s2])
     = Inr [(0, fst ?s1), (5, fst ?s2)]"
    by (simp add: sales_eval)
  from replay_last_tick[OF run] obtain e1 e2 where
    e1: "replay_state 2 2 10 5 [?s1, ?s2] = Inr e1"
    and st: "process_snapshot e1 ?i3 10 = Inr ([?u], e2)"
    by auto
  from hist e1 have h: "snapshot_history e1 = [(0, fst ?s1), (5, fst ?s2)]"
    by simp
  from replay_state_config[OF e1] have c: "confirm_intervals e1 = 2" "min_delta_threshold e1 = 2"
    by simp_all
  have neg: "sum_list (map (\<lambda>p. dict_get ?i3 p 0 - dict_get (snd (last (snapshot_history e1))) p 0)
                 (all_products ?i3 (snd (last (snapshot_history e1))))) < 0"
    by (simp add: h all_products_def dict_keys_def dict_get_def)
  have hyps: "snapshot_history e1 \<noteq> []" "1 \<le> confirm_intervals e1"
    "\<forall>ev\<in>set [?u]. \<not> validated ev"
    by (simp_all add: h c)
  have lhs: "\<exists>ev\<in>set [?u]. product_name ev = ''Unknown'' \<and> \<not> validated ev"
    by simp
  from unattributed_fallback_gate[OF st hyps(1,2) neg hyps(3)] lhs
  have "2 * min_delta_threshold e1
          \<le> \<bar>sum_list (map (\<lambda>p. dict_get ?i3 p 0 - dict_get (snd (last (snapshot_history e1))) p 0)
                 (all_products ?i3 (snd (last (snapshot_history e1)))))\<bar>
      \<and> (\<exists>older recent.
            deque_append (confirm_intervals e1 + 1) (snapshot_history e1) (10, ?i3) = older @ recent
            \<and> int (length recent) = confirm_intervals e1 + 1
            \<and> sorted_wrt (\<lambda>a b. b < a) (map (\<lambda>s. sum_values (snd s)) recent))"
    by blast
  then show ?thesis
    using run by (simp add: h c deque_append_def)
qed

lemma replay_state_last_tick:
  assumes "replay ci mdt cd si (snaps @ [(inventory, ts)]) = Inr out"
  shows "\<exists>e1 e2. replay_state ci mdt cd si snaps = Inr e1
       \<and> process_snapshot e1 inventory ts = Inr (last out, e2)
       \<and> replay_state ci mdt cd si (snaps @ [(inventory, ts)]) = Inr e2"
  using assms
  by (auto simp: replay_def replay_state_def process_all_snoc split: sum.splits prod.splits)

lemma unattributed_fallback_last_sale_time:
  "unattributed_fallback ts cur prev (evs, e\<lparr>last_sale_time := m\<rparr>) =
     (case unattributed_fallback ts cur prev (evs, e) of
        (evs', e') \<Rightarrow> (evs', e'\<lparr>last_sale_time := m\<rparr>))"
  by (simp add: unattributed_fallback_def validate_total_decrease_def Let_def)

section \<open>Unknown sales and the cooldown table\<close>

text \<open>
  C10. The unattributed fallback does not read \<open>last_sale_time\<close>: run on an engine with
  any other cooldown table it returns the same events and leaves that table as it was.
  A tick that returns an Unknown sale leaves \<open>last_sale_time\<close> unchanged. With a cooldown
  of 10 seconds, four products losing one unit each per tick yield an Unknown sale on
  every tick once three snapshots are retained: at seconds 10, 15 and 20.
\<close>

theorem unknown_sale_skips_cooldown:
  "unattributed_fallback ts cur prev (evs0, e0\<lparr>last_sale_time := m\<rparr>) =
     (case unattributed_fallback ts cur prev (evs0, e0) of
        (evs', e') \<Rightarrow> (evs', e'\<lparr>last_sale_time := m\<rparr>))
   \<and> (process_snapshot e inventory t = Inr (evs, e') \<and> (\<exists>ev\<in>set evs. \<not> validated ev)
        \<longrightarrow> last_sale_time e' = last_sale_time e)
   \<and> replay 2 2 10 5
     [([(''a'', 10), (''b'', 10), (''c'', 10), (''d'', 10)], 0),
      ([(''a'', 9), (''b'', 9), (''c'', 9), (''d'', 9)], 5),
      ([(''a'', 8), (''b'', 8), (''c'', 8), (''d'', 8)], 10),
      ([(''a'', 7), (''b'', 7), (''c'', 7), (''d'', 7)], 15),
      ([(''a'', 6), (''b'', 6), (''c'', 6), (''d'', 6)], 20)]
   = Inr [[], [],
       [\<lparr>product_name = ''Unknown'', quantity_delta = 4, inventory_before = 36,
         inventory_after = 32, timestamp_utc = 10, validated = False\<rparr>],
       [\<lparr>product_name = ''Unknown'', quantity_delta = 4, inventory_before = 32,
         inventory_after = 28, timestamp_utc = 15, validated = False\<rparr>],
       [\<lparr>product_name = ''Unknown'', quantity_delta = 4, inventory_before = 28,
         inventory_after = 24, timestamp_utc = 20, validated = False\<rparr>]]"
proof (intro conjI impI)
  show "unattributed_fallback ts cur prev (evs0, e0\<lparr>last_sale_time := m\<rparr>) =
     (case unattributed_fallback ts cur prev (evs0, e0) of
        (evs', e') \<Rightarrow> (evs', e'\<lparr>last_sale_time := m\<rparr>))"
    by (rule unattributed_fallback_last_sale_time)
next
  assume a: "process_snapshot e inventory t = Inr (evs, e') \<and> (\<exists>ev\<in>set evs. \<not> validated ev)"
  then have step: "process_snapshot e inventory t = Inr (evs, e')" by simp
  from step show "last_sale_time e' = last_sale_time e"
  proof (cases rule: process_snapshot_cases)
    case first
    then show ?thesis by simp
  next
    case (detect evs1 e1 e2)
    have val1: "\<forall>x\<in>set evs1. validated x"
      using sales_loop_event[OF detect(3) distinct_all_products] by blast
    from unattributed_fallback_cases[OF detect(4)] a val1 have nil: "evs1 = []"
      and l2: "last_sale_time e2 = last_sale_time e1"
      by (auto simp: cleanup_pending_decreases_frame)
    from sales_loop_quiet[OF detect(3)] nil have "last_sale_time e1 = last_sale_time e"
      by auto
    with l2 detect(5) show ?thesis by (simp add: update_statistics_frame)
  qed
next
  show "replay 2 2 10 5
     [([(''a'', 10), (''b'', 10), (''c'', 10), (''d'', 10)], 0),
      ([(''a'', 9), (''b'', 9), (''c'', 9), (''d'', 9)], 5),
      ([(''a'', 8), (''b'', 8), (''c'', 8), (''d'', 8)], 10),
      ([(''a'', 7), (''b'', 7), (''c'', 7), (''d'', 7)], 15),
      ([(''a'', 6), (''b'', 6), (''c'', 6), (''d'', 6)], 20)]
   = Inr [[], [],
       [\<lparr>product_name = ''Unknown'', quantity_delta = 4, inventory_before = 36,
         inventory_after = 32, timestamp_utc = 10, validated = False\<rparr>],
       [\<lparr>product_name = ''Unknown'', quantity_delta = 4, inventory_before = 32,
         inventory_after = 28, timestamp_utc = 15, validated = False\<rparr>],
       [\<lparr>product_name = ''Unknown'', quantity_delta = 4, inventory_before = 28,
         inventory_after = 24, timestamp_utc = 20, validated = False\<rparr>]]"
    by (simp add: sales_eval)
qed

theorem unknown_sale_skips_cooldown_witness:
  "replay 2 2 10 5
     [([(''a'', 10), (''b'', 10), (''c'', 10), (''d'', 10)], 0),
      ([(''a'', 9), (''b'', 9), (''c'', 9), (''d'', 9)], 5),
      ([(''a'', 8), (''b'', 8), (''c'', 8), (''d'', 8)], 10),
      ([(''a'', 7), (''b'', 7), (''c'', 7), (''d'', 7)], 15)]
   = Inr [[], [],
       [\<lparr>product_name = ''Unknown'', quantity_delta = 4, inventory_before = 36,
         inventory_after = 32, timestamp_utc = 10, validated = False\<rparr>],
       [\<lparr>product_name = ''Unknown'', quantity_delta = 4, inventory_before = 32,
         inventory_after = 28, timestamp_utc = 15, validated = False\<rparr>]]
   \<and> map_sum id last_sale_time (replay_state 2 2 10 5
     [([(''a'', 10), (''b'', 10), (''c'', 10), (''d'', 10)], 0),
      ([(''a'', 9), (''b'', 9), (''c'', 9), (''d'', 9)], 5),
      ([(''a'', 8), (''b'', 8), (''c'', 8), (''d'', 8)], 10),
      ([(''a'', 7), (''b'', 7), (''c'', 7), (''d'', 7)], 15)])
     = map_sum id last_sale_time (replay_state 2 2 10 5
     [([(''a'', 10), (''b'', 10), (''c'', 10), (''d'', 10)], 0),
      ([(''a'', 9), (''b'', 9), (''c'', 9), (''d'', 9)], 5),
      ([(''a'', 8), (''b'', 8), (''c'', 8), (''d'', 8)], 10)])"
proof -
  let ?first = "[([(''a'', 10), (''b'', 10), (''c'', 10), (''d'', 10 :: int)], 0 :: real),
      ([(''a'', 9), (''b'', 9), (''c'', 9), (''d'', 9)], 5),
      ([(''a'', 8), (''b'', 8), (''c'', 8), (''d'', 8)], 10)]"
  let ?i4 = "[(''a'', 7), (''b'', 7), (''c'', 7), (''d'', 7 :: int)]"
  let ?u = "\<lparr>product_name = ''Unknown'', quantity_delta = 4, inventory_before = 32,
         inventory_after = 28, timestamp_utc = 15, validated = False\<rparr>"
  have run: "replay 2 2 10 5 (?first @ [(?i4, 15)]) = Inr [[], [],
       [\<lparr>product_name = ''Unknown'', quantity_delta = 4, inventory_before = 36,
         inventory_after = 32, timestamp_utc = 10, validated = False\<rparr>], [?u]]"
    using unknown_twice by simp
  from replay_state_last_tick[OF run] obtain e1 e2 where
    e1: "replay_state 2 2 10 5 ?first = Inr e1"
    and st: "process_snapshot e1 ?i4 15 = Inr ([?u], e2)"
    and e2: "replay_state 2 2 10 5 (?first @ [(?i4, 15)]) = Inr e2"
    by auto
  from unknown_sale_skips_cooldown[of _ _ _ _ _ _ e1 ?i4 15 "[?u]" e2] st
  have "last_sale_time e2 = last_sale_time e1" by simp
  with e1 e2 run show ?thesis by simp
qed

lemma dict_items_of_map_of:
  assumes "map_of d k = Some v"
  shows "(k, v) \<in> set (dict_items d)"
proof -
  from assms have "k \<in> fst ` set d" by (metis map_of_eq_None_iff option.distinct(1))
  with assms show ?thesis by (auto simp: dict_items_def dict_keys_def)
qed

lemma low_stock_body_frame:
  assumes "low_stock_body inventory ts item (alerts, e) = Inr (alerts', e')" and "fst item \<noteq> p"
  shows "pending_low_stock e' p = pending_low_stock e p"
  using assms
  by (cases item)
     (auto simp: low_stock_body_def alert_body_defs
        split: option.splits sum.splits if_splits prod.splits bool.splits)

lemma low_stock_body_above:
  assumes "low_stock_body inventory ts (p, th) (alerts, e) = Inr (alerts', e')"
    and "th < dict_get inventory p 0"
  shows "pending_low_stock e' p = None \<or> pending_low_stock e' p = Some []"
  using assms
  by (auto simp: low_stock_body_def alert_body_defs
        split: option.splits sum.splits if_splits prod.splits bool.splits)

lemma expiration_body_frame:
  assumes "expiration_body ts item (alerts, e) = Inr (alerts', e')" and "fst item \<noteq> p"
  shows "pending_expiration e' p = pending_expiration e p"
  using assms
  by (cases item)
     (auto simp: expiration_body_def alert_body_defs
        split: option.splits sum.splits if_splits prod.splits bool.splits)

lemma expiration_body_fresh:
  assumes "expiration_body ts (p, fd) (alerts, e) = Inr (alerts', e')"
    and "is_expired fd = None \<or> is_expired fd = Some False"
  shows "pending_expiration e' p = None \<or> pending_expiration e' p = Some []"
  using assms
  by (auto simp: expiration_body_def alert_body_defs
        split: option.splits sum.splits if_splits prod.splits bool.splits)

lemma sales_loop_increase:
  assumes loop: "for_each (product_body ts cur prev) ps (evs0, e0) = Inr (evs1, e1)"
    and dist: "distinct ps" and mem: "p \<in> set ps"
    and up: "dict_get cur p 0 - dict_get prev p 0 > 0"
  shows "pending_decreases e1 p = None \<or> pending_decreases e1 p = Some []"
proof -
  define view where "view = (\<lambda>s :: sale_event list \<times> engine. pending_decreases (snd s) p)"
  have frame: "view t = view s"
    if "y \<noteq> p" and "product_body ts cur prev y s = Inr t" for y s t
  proof -
    obtain a b where s: "s = (a, b)" by (cases s)
    obtain c d where t: "t = (c, d)" by (cases t)
    from product_body_frame[OF that(2)[unfolded s t] that(1)]
    show ?thesis by (simp add: view_def s t)
  qed
  from for_each_local[OF loop, where key = "\<lambda>x. x" and view = view and x = p] dist mem frame
  obtain s1 s2 where b: "product_body ts cur prev p s1 = Inr s2"
    and v2: "view (evs1, e1) = view s2"
    by auto
  obtain evsA eA where s1: "s1 = (evsA, eA)" by (cases s1)
  obtain evsB eB where s2: "s2 = (evsB, eB)" by (cases s2)
  from product_body_increase[OF b[unfolded s1 s2] up] v2 show ?thesis
    by (simp add: view_def s2)
qed

lemma low_stock_loop_above:
  assumes run: "evaluate_low_stock e inventory ts = Inr (alerts, e1)"
    and mon: "map_of (low_stock_thresholds e) p = Some th"
    and above: "th < dict_get inventory p 0"
  shows "pending_low_stock e1 p = None \<or> pending_low_stock e1 p = Some []"
proof -
  define view where "view = (\<lambda>s :: alert list \<times> alert_engine. pending_low_stock (snd s) p)"
  have loop: "for_each (low_stock_body inventory ts) (dict_items (low_stock_thresholds e)) ([], e)
       = Inr (alerts, e1)"
    using run by (simp add: evaluate_low_stock_def)
  have frame: "view t = view s"
    if "fst y \<noteq> fst (p, th)" and "low_stock_body inventory ts y s = Inr t" for y s t
  proof -
    obtain a b where s: "s = (a, b)" by (cases s)
    obtain c d where t: "t = (c, d)" by (cases t)
    from low_stock_body_frame[OF that(2)[unfolded s t]] that(1)
    show ?thesis by (simp add: view_def s t)
  qed
  from for_each_local[OF loop distinct_dict_items dict_items_of_map_of[OF mon], where view = view]
    frame
  obtain s1 s2 where b: "low_stock_body inventory ts (p, th) s1 = Inr s2"
    and v2: "view (alerts, e1) = view s2"
    by blast
  obtain evsA eA where s1: "s1 = (evsA, eA)" by (cases s1)
  obtain evsB eB where s2: "s2 = (evsB, eB)" by (cases s2)
  from low_stock_body_above[OF b[unfolded s1 s2] above] v2 show ?thesis
    by (simp add: view_def s2)
qed

lemma expiration_loop_fresh:
  assumes run: "evaluate_expiration e freshness_state ts = Inr (alerts, e1)"
    and mon: "map_of freshness_state p = Some fd"
    and fresh: "is_expired fd = None \<or> is_expired fd = Some False"
  shows "pending_expiration e1 p = None \<or> pending_expiration e1 p = Some []"
proof -
  define view where "view = (\<lambda>s :: alert list \<times> alert_engine. pending_expiration (snd s) p)"
  have loop: "for_each (expiration_body ts) (dict_items freshness_state) ([], e) = Inr (alerts, e1)"
    using run by (simp add: evaluate_expiration_def)
  have frame: "view t = view s"
    if "fst y \<noteq> fst (p, fd)" and "expiration_body ts y s = Inr t" for y s t
  proof -
    obtain a b where s: "s = (a, b)" by (cases s)
    obtain c d where t: "t = (c, d)" by (cases t)
    from expiration_body_frame[OF that(2)[unfolded s t]] that(1)
    show ?thesis by (simp add: view_def s t)
  qed
  from for_each_local[OF loop distinct_dict_items dict_items_of_map_of[OF mon], where view = view]
    frame
  obtain s1 s2 where b: "expiration_body ts (p, fd) s1 = Inr s2"
    and v2: "view (alerts, e1) = view s2"
    by blast
  obtain evsA eA where s1: "s1 = (evsA, eA)" by (cases s1)
  obtain evsB eB where s2: "s2 = (evsB, eB)" by (cases s2)
  from expiration_body_fresh[OF b[unfolded s1 s2] fresh] v2 show ?thesis
    by (simp add: view_def s2)
qed

lemma evaluate_all_snoc:
  "evaluate_all e (ticks @ [(inventory, fs, ts)]) =
     (case evaluate_all e ticks of
        Inl err \<Rightarrow> Inl err
      | Inr (out, e1) \<Rightarrow>
          (case evaluate e1 inventory fs ts of
             Inl err \<Rightarrow> Inl err
           | Inr (alerts, e2) \<Rightarrow> Inr (out @ [alerts], e2)))"
  by (induction ticks arbitrary: e) (auto split: sum.splits prod.splits)

lemma evaluate_all_config:
  assumes "evaluate_all e ticks = Inr (out, e')"
  shows "low_stock_thresholds e' = low_stock_thresholds e
       \<and> low_stock_confirm_intervals e' = low_stock_confirm_intervals e
       \<and> expiration_confirm_intervals e' = expiration_confirm_intervals e
       \<and> alert_cooldown_seconds e' = alert_cooldown_seconds e"
  using assms
proof (induction ticks arbitrary: e out)
  case Nil
  then show ?case by simp
next
  case (Cons tick rest)
  obtain inventory fs ts where tick: "tick = (inventory, fs, ts)" by (cases tick)
  from Cons.prems obtain alerts e1 out' where
    st: "evaluate e inventory fs ts = Inr (alerts, e1)"
    and run: "evaluate_all e1 rest = Inr (out', e')"
    by (auto simp: tick split: sum.splits prod.splits)
  from evaluate_config[OF st] Cons.IH[OF run] show ?case by simp
qed

lemma alert_replay_state_last_tick:
  assumes "alert_replay (Some th) lci eci cd (ticks @ [(inventory, fs, ts)]) = Inr out"
  shows "\<exists>e1 e2. alert_replay_state (Some th) lci eci cd ticks = Inr e1
       \<and> evaluate e1 inventory fs ts = Inr (last out, e2)
       \<and> alert_replay_state (Some th) lci eci cd (ticks @ [(inventory, fs, ts)]) = Inr e2
       \<and> low_stock_thresholds e1 = th \<and> low_stock_confirm_intervals e1 = lci
       \<and> expiration_confirm_intervals e1 = eci \<and> alert_cooldown_seconds e1 = cd"
proof -
  from assms obtain e0 e1 e2 out1 alerts where
    i: "AlertEngine_init (Some th) lci eci cd False None = Inr e0"
    and r: "evaluate_all e0 ticks = Inr (out1, e1)"
    and s: "evaluate e1 inventory fs ts = Inr (alerts, e2)" and o: "out = out1 @ [alerts]"
    by (auto simp: alert_replay_def evaluate_all_snoc split: sum.splits prod.splits)
  from i have "low_stock_thresholds e0 = th \<and> low_stock_confirm_intervals e0 = lci
       \<and> expiration_confirm_intervals e0 = eci \<and> alert_cooldown_seconds e0 = cd"
    by (auto simp: AlertEngine_init_def)
  with evaluate_all_config[OF r] i r s o show ?thesis
    by (simp add: alert_replay_state_def evaluate_all_snoc)
qed

section \<open>Contradiction empties the pending queue\<close>

text \<open>
  C6. A tick of the sales engine on which a product's count is above its count in the
  previous snapshot leaves no pending queue for that product. A call of \<open>evaluate\<close> on
  which a monitored product's count is above its threshold leaves its low-stock queue
  empty, and one on which a product's freshness record is not expired leaves its
  expiration queue empty.
\<close>

theorem contradiction_clears_pending:
  "(process_snapshot e inventory ts = Inr (evs, e') \<and> snapshot_history e \<noteq> []
      \<and> 1 \<le> confirm_intervals e
      \<and> dict_get (snd (last (snapshot_history e))) p 0 < dict_get inventory p 0
      \<longrightarrow> pending_decreases e' p = None)
   \<and> (evaluate ae inventory fs ts = Inr (alerts, ae')
      \<and> map_of (low_stock_thresholds ae) p = Some th \<and> th < dict_get inventory p 0
      \<longrightarrow> pending_low_stock ae' p = None \<or> pending_low_stock ae' p = Some [])
   \<and> (evaluate ae inventory fs ts = Inr (alerts, ae')
      \<and> map_of fs p = Some fd \<and> (is_expired fd = None \<or> is_expired fd = Some False)
      \<longrightarrow> pending_expiration ae' p = None \<or> pending_expiration ae' p = Some [])"
proof (intro conjI impI)
  assume a: "process_snapshot e inventory ts = Inr (evs, e') \<and> snapshot_history e \<noteq> []
      \<and> 1 \<le> confirm_intervals e
      \<and> dict_get (snd (last (snapshot_history e))) p 0 < dict_get inventory p 0"
  then have step: "process_snapshot e inventory ts = Inr (evs, e')" by simp
  from step show "pending_decreases e' p = None"
  proof (cases rule: process_snapshot_cases)
    case first
    from a deque_append_two[of "snapshot_history e" "confirm_intervals e" "(ts, inventory)"] first(5)
    show ?thesis by simp
  next
    case (detect evs1 e1 e2)
    let ?prev = "snd (last (snapshot_history e))"
    from a have up: "dict_get inventory p 0 - dict_get ?prev p 0 > 0" by simp
    have "p \<in> set (dict_keys inventory) \<or> p \<in> set (dict_keys ?prev)"
    proof (rule ccontr)
      assume "\<not> ?thesis"
      then have "dict_get inventory p 0 = 0" "dict_get ?prev p 0 = 0"
        by (simp_all add: dict_get_absent)
      with up show False by simp
    qed
    then have mem: "p \<in> set (all_products inventory ?prev)"
      by (auto simp: all_products_def)
    from sales_loop_increase[OF detect(3) distinct_all_products mem up]
    have "pending_decreases (cleanup_pending_decreases e1 ts) p = None"
      by (auto simp: cleanup_pending_decreases_def Let_def)
    with unattributed_fallback_cases[OF detect(4)] detect(5) show ?thesis
      by (simp add: update_statistics_frame)
  qed
next
  assume a: "evaluate ae inventory fs ts = Inr (alerts, ae')
      \<and> map_of (low_stock_thresholds ae) p = Some th \<and> th < dict_get inventory p 0"
  then obtain A1 e1 A2 e2 where
    l1: "evaluate_low_stock ae inventory ts = Inr (A1, e1)"
    and l2: "evaluate_expiration e1 fs ts = Inr (A2, e2)"
    and e': "ae' = fold process_alert (A1 @ A2) e2"
    by (auto simp: evaluate_def Let_def split: sum.splits prod.splits)
  from a low_stock_loop_above[OF l1, of p th]
  have "pending_low_stock e1 p = None \<or> pending_low_stock e1 p = Some []" by simp
  with expiration_loop_config[OF l2]
  show "pending_low_stock ae' p = None \<or> pending_low_stock ae' p = Some []"
    by (simp add: e' fold_process_alert_frame)
next
  assume a: "evaluate ae inventory fs ts = Inr (alerts, ae')
      \<and> map_of fs p = Some fd \<and> (is_expired fd = None \<or> is_expired fd = Some False)"
  then obtain A1 e1 A2 e2 where
    l1: "evaluate_low_stock ae inventory ts = Inr (A1, e1)"
    and l2: "evaluate_expiration e1 fs ts = Inr (A2, e2)"
    and e': "ae' = fold process_alert (A1 @ A2) e2"
    by (auto simp: evaluate_def Let_def split: sum.splits prod.splits)
  from a expiration_loop_fresh[OF l2, of p fd]
  show "pending_expiration ae' p = None \<or> pending_expiration ae' p = Some []"
    by (simp add: e' fold_process_alert_frame)
qed

theorem contradiction_clears_pending_witness:
  "map_sum id (\<lambda>e. pending_decreases e ''mango'')
     (replay_state 2 1 10 5 [([(''mango'', 5)], 0), ([(''mango'', 4)], 5)])
   = Inr (Some [(5, - 1)])
   \<and> map_sum id (\<lambda>e. pending_decreases e ''mango'')
     (replay_state 2 1 10 5 [([(''mango'', 5)], 0), ([(''mango'', 4)], 5), ([(''mango'', 5)], 10)])
   = Inr None
   \<and> map_sum id (\<lambda>e. (pending_low_stock e ''mango'', pending_expiration e ''mango''))
     (alert_replay_state (Some [(''mango'', 3)]) 2 2 10
        [([(''mango'', 2)], [(''mango'', \<lparr>is_expired = Some True, age_days = Some 6,
            expiration_days = Some 5, first_seen_utc = Some 0\<rparr>)], 0)])
   = Inr (Some [(0, 2)], Some [(0, 6)])
   \<and> (map_sum id (\<lambda>e. pending_low_stock e ''mango'')
     (alert_replay_state (Some [(''mango'', 3)]) 2 2 10
        [([(''mango'', 2)], [(''mango'', \<lparr>is_expired = Some True, age_days = Some 6,
            expiration_days = Some 5, first_seen_utc = Some 0\<rparr>)], 0),
         ([(''mango'', 5)], [(''mango'', \<lparr>is_expired = Some False, age_days = Some 0,
            expiration_days = Some 5, first_seen_utc = Some 5\<rparr>)], 5)])
        = Inr None
      \<or> map_sum id (\<lambda>e. pending_low_stock e ''mango'')
     (alert_replay_state (Some [(''mango'', 3)]) 2 2 10
        [([(''mango'', 2)], [(''mango'', \<lparr>is_expired = Some True, age_days = Some 6,
            expiration_days = Some 5, first_seen_utc = Some 0\<rparr>)], 0),
         ([(''mango'', 5)], [(''mango'', \<lparr>is_expired = Some False, age_days = Some 0,
            expiration_days = Some 5, first_seen_utc = Some 5\<rparr>)], 5)])
        = Inr (Some []))
   \<and> (map_sum id (\<lambda>e. pending_expiration e ''mango'')
     (alert_replay_state (Some [(''mango'', 3)]) 2 2 10
        [([(''mango'', 2)], [(''mango'', \<lparr>is_expired = Some True, age_days = Some 6,
            expiration_days = Some 5, first_seen_utc = Some 0\<rparr>)], 0),
         ([(''mango'', 5)], [(''mango'', \<lparr>is_expired = Some False, age_days = Some 0,
            expiration_days = Some 5, first_seen_utc = Some 5\<rparr>)], 5)])
        = Inr None
      \<or> map_sum id (\<lambda>e. pending_expiration e ''mango'')
     (alert_replay_state (Some [(''mango'', 3)]) 2 2 10
        [([(''mango'', 2)], [(''mango'', \<lparr>is_expired = Some True, age_days = Some 6,
            expiration_days = Some 5, first_seen_utc = Some 0\<rparr>)], 0),
         ([(''mango'', 5)], [(''mango'', \<lparr>is_expired = Some False, age_days = Some 0,
            expiration_days = Some 5, first_seen_utc = Some 5\<rparr>)], 5)])
        = Inr (Some []))"
proof -
  let ?s12 = "[([(''mango'', 5 :: int)], 0 :: real), ([(''mango'', 4)], 5)]"
  let ?i3 = "[(''mango'', 5 :: int)]"
  let ?t1 = "([(''mango'', 2 :: int)], [(''mango'', \<lparr>is_expired = Some True, age_days = Some 6,
            expiration_days = Some 5, first_seen_utc = Some 0\<rparr>)], 0 :: real)"
  let ?f2 = "\<lparr>is_expired = Some False, age_days = Some 0,
            expiration_days = Some 5, first_seen_utc = Some 5\<rparr>"
  have run: "replay 2 1 10 5 (?s12 @ [(?i3, 10)]) = Inr [[], [], []]"
    by (simp add: sales_eval)
  have before: "map_sum id (\<lambda>e. pending_decreases e ''mango'') (replay_state 2 1 10 5 ?s12)
      = Inr (Some [(5, - 1)])"
    by (simp add: sales_eval)
  have hist: "map_sum id snapshot_history (replay_state 2 1 10 5 ?s12)
      = Inr [(0, [(''mango'', 5)]), (5, [(''mango'', 4)])]"
    by (simp add: sales_eval)
  from replay_state_last_tick[OF run] obtain e1 e2 where
    e1: "replay_state 2 1 10 5 ?s12 = Inr e1"
    and st: "process_snapshot e1 ?i3 10 = Inr ([], e2)"
    and e2: "replay_state 2 1 10 5 (?s12 @ [(?i3, 10)]) = Inr e2"
    by auto
  from hist e1 have h: "snapshot_history e1 = [(0, [(''mango'', 5)]), (5, [(''mango'', 4)])]"
    by simp
  from replay_state_config[OF e1] have c: "confirm_intervals e1 = 2" by simp
  have arun: "alert_replay (Some [(''mango'', 3)]) 2 2 10 ([?t1] @ [([(''mango'', 5)], [(''mango'', ?f2)], 5)])
      = Inr [[], []]"
    by (simp add: alert_eval)
  have abefore: "map_sum id (\<lambda>e. (pending_low_stock e ''mango'', pending_expiration e ''mango''))
     (alert_replay_state (Some [(''mango'', 3)]) 2 2 10 [?t1]) = Inr (Some [(0, 2)], Some [(0, 6)])"
    by (simp add: alert_eval)
  from alert_replay_state_last_tick[OF arun] obtain a1 a2 where
    ev: "evaluate a1 [(''mango'', 5)] [(''mango'', ?f2)] 5 = Inr ([], a2)"
    and a2: "alert_replay_state (Some [(''mango'', 3)]) 2 2 10
               ([?t1] @ [([(''mango'', 5)], [(''mango'', ?f2)], 5)]) = Inr a2"
    and th: "low_stock_thresholds a1 = [(''mango'', 3)]"
    by auto
  note sales = contradiction_clears_pending[of e1 ?i3 10 "[]" e2 "''mango''"]
  note alerts = contradiction_clears_pending[of _ "[(''mango'', 5)]" 5 _ _ "''mango''" a1
      "[(''mango'', ?f2)]" "[]" a2 3 ?f2]
  from sales st h c have s: "pending_decreases e2 ''mango'' = None"
    by (simp add: dict_get_def)
  from alerts ev th have l: "pending_low_stock a2 ''mango'' = None \<or> pending_low_stock a2 ''mango'' = Some []"
    by (simp add: dict_get_def)
  from alerts ev have x: "pending_expiration a2 ''mango'' = None \<or> pending_expiration a2 ''mango'' = Some []"
    by simp
  from s l x before abefore e2 a2 show ?thesis by simp
qed

lemma dict_items_map_of:
  assumes "(k, v) \<in> set (dict_items d)"
  shows "map_of d k = Some v"
proof -
  from assms have "k \<in> fst ` set d" and v: "v = the (map_of d k)"
    by (auto simp: dict_items_def dict_keys_def)
  then obtain w where "map_of d k = Some w"
    by (metis map_of_eq_None_iff not_Some_eq)
  with v show ?thesis by simp
qed

lemma low_stock_loop_alerts:
  assumes run: "evaluate_low_stock e inventory ts = Inr (alerts, e1)" and mem: "a \<in> set alerts"
  shows "alert_type a = LOW_STOCK
     \<and> severity a = (if dict_get inventory (alert_product_name a) 0 = 0 then CRITICAL else WARNING)
     \<and> (\<exists>th. map_of (low_stock_thresholds e) (alert_product_name a) = Some th
           \<and> dict_get inventory (alert_product_name a) 0 \<le> th
           \<and> metadata a = LowStockMetadata (dict_get inventory (alert_product_name a) 0) th
                (if dict_get inventory (alert_product_name a) 0 = 0
                 then ''out_of_stock'' else ''low_stock''))"
proof -
  let ?P = "\<lambda>a. alert_type a = LOW_STOCK
     \<and> severity a = (if dict_get inventory (alert_product_name a) 0 = 0 then CRITICAL else WARNING)
     \<and> (\<exists>th. map_of (low_stock_thresholds e) (alert_product_name a) = Some th
           \<and> dict_get inventory (alert_product_name a) 0 \<le> th
           \<and> metadata a = LowStockMetadata (dict_get inventory (alert_product_name a) 0) th
                (if dict_get inventory (alert_product_name a) 0 = 0
                 then ''out_of_stock'' else ''low_stock''))"
  have loop: "for_each (low_stock_body inventory ts) (dict_items (low_stock_thresholds e)) ([], e)
       = Inr (alerts, e1)"
    using run by (simp add: evaluate_low_stock_def)
  have "\<forall>a\<in>set (fst (alerts, e1)). ?P a"
  proof (rule for_each_invariant[OF loop, where I = "\<lambda>s. \<forall>a\<in>set (fst s). ?P a"])
    show "\<forall>a\<in>set (fst ([] :: alert list, e)). ?P a" by simp
  next
    fix x and s t :: "alert list \<times> alert_engine"
    assume x: "x \<in> set (dict_items (low_stock_thresholds e))"
      and i: "\<forall>a\<in>set (fst s). ?P a" and b: "low_stock_body inventory ts x s = Inr t"
    obtain p th where xp: "x = (p, th)" by (cases x)
    obtain as b0 where s: "s = (as, b0)" by (cases s)
    obtain as' b' where t: "t = (as', b')" by (cases t)
    from x xp have m: "map_of (low_stock_thresholds e) p = Some th"
      by (simp add: dict_items_map_of)
    from low_stock_body_emit[OF b[unfolded xp s t]] show "\<forall>a\<in>set (fst t). ?P a"
    proof (elim disjE exE conjE)
      assume "as' = as"
      with i show ?thesis by (simp add: s t)
    next
      fix a
      assume "as' = as @ [a]" "(alert_type a, alert_product_name a) = (LOW_STOCK, p)"
        "severity a = (if dict_get inventory p 0 = 0 then CRITICAL else WARNING)"
        "metadata a = LowStockMetadata (dict_get inventory p 0) th
             (if dict_get inventory p 0 = 0 then ''out_of_stock'' else ''low_stock'')"
        "dict_get inventory p 0 \<le> th"
      with i m show ?thesis by (simp add: s t)
    qed
  qed
  with mem show ?thesis by simp
qed

lemma low_stock_body_confirmed:
  assumes "dict_get inventory p 0 \<le> th"
    and "low_stock_confirm_intervals e
          \<le> int (length (deque_append (low_stock_confirm_intervals e + 1)
                 (case pending_low_stock e p of None \<Rightarrow> [] | Some q \<Rightarrow> q)
                 (ts, dict_get inventory p 0)))"
    and "list_all (\<lambda>(_, n). n \<le> th)
           (deque_append (low_stock_confirm_intervals e + 1)
                 (case pending_low_stock e p of None \<Rightarrow> [] | Some q \<Rightarrow> q)
                 (ts, dict_get inventory p 0))"
    and "\<forall>t. last_alert_time e (LOW_STOCK, p) = Some t \<longrightarrow> \<not> ts - t < alert_cooldown_seconds e"
    and "low_stock_body inventory ts (p, th) (alerts, e) = Inr (alerts', e')"
  shows "\<exists>a. alerts' = alerts @ [a] \<and> alert_type a = LOW_STOCK \<and> alert_product_name a = p"
  using assms
  by (auto simp: low_stock_body_def alert_body_defs not_le not_less case_prod_beta
        split: option.splits sum.splits if_splits prod.splits bool.splits)

lemma low_stock_loop_confirmed:
  assumes run: "evaluate_low_stock e inventory ts = Inr (alerts, e1)"
    and mon: "map_of (low_stock_thresholds e) p = Some th"
    and low: "dict_get inventory p 0 \<le> th"
    and len: "low_stock_confirm_intervals e
          \<le> int (length (deque_append (low_stock_confirm_intervals e + 1)
                 (case pending_low_stock e p of None \<Rightarrow> [] | Some q \<Rightarrow> q)
                 (ts, dict_get inventory p 0)))"
    and cnt: "list_all (\<lambda>(_, n). n \<le> th)
           (deque_append (low_stock_confirm_intervals e + 1)
                 (case pending_low_stock e p of None \<Rightarrow> [] | Some q \<Rightarrow> q)
                 (ts, dict_get inventory p 0))"
    and cool: "\<forall>t. last_alert_time e (LOW_STOCK, p) = Some t \<longrightarrow> \<not> ts - t < alert_cooldown_seconds e"
  shows "\<exists>a\<in>set alerts. alert_type a = LOW_STOCK \<and> alert_product_name a = p"
proof -
  define view where "view = (\<lambda>s :: alert list \<times> alert_engine.
     (pending_low_stock (snd s) p, last_alert_time (snd s) (LOW_STOCK, p),
      low_stock_confirm_intervals (snd s), alert_cooldown_seconds (snd s),
      filter (\<lambda>a. alert_type a = LOW_STOCK \<and> alert_product_name a = p) (fst s)))"
  have loop: "for_each (low_stock_body inventory ts) (dict_items (low_stock_thresholds e)) ([], e)
       = Inr (alerts, e1)"
    using run by (simp add: evaluate_low_stock_def)
  have frame: "view t = view s"
    if "fst y \<noteq> fst (p, th)" and "low_stock_body inventory ts y s = Inr t" for y s t
  proof -
    obtain q th' where y: "y = (q, th')" by (cases y)
    obtain a b where s: "s = (a, b)" by (cases s)
    obtain c d where t: "t = (c, d)" by (cases t)
    note b = that(2)[unfolded y s t]
    from that(1) y have ne: "q \<noteq> p" by simp
    from low_stock_body_frame[OF b, of p] ne have 1: "pending_low_stock d p = pending_low_stock b p"
      by simp
    from low_stock_body_config[OF b] have 2: "low_stock_confirm_intervals d = low_stock_confirm_intervals b"
      "alert_cooldown_seconds d = alert_cooldown_seconds b" by simp_all
    from low_stock_body_emit[OF b] ne
    have 3: "last_alert_time d (LOW_STOCK, p) = last_alert_time b (LOW_STOCK, p)
       \<and> filter (\<lambda>a. alert_type a = LOW_STOCK \<and> alert_product_name a = p) c
         = filter (\<lambda>a. alert_type a = LOW_STOCK \<and> alert_product_name a = p) a"
      by auto
    from 1 2 3 show ?thesis by (simp add: view_def s t)
  qed
  from for_each_local[OF loop distinct_dict_items dict_items_of_map_of[OF mon], where view = view]
    frame
  obtain s1 s2 where b: "low_stock_body inventory ts (p, th) s1 = Inr s2"
    and v1: "view s1 = view ([], e)" and v2: "view (alerts, e1) = view s2"
    by blast
  obtain evsA eA where s1: "s1 = (evsA, eA)" by (cases s1)
  obtain evsB eB where s2: "s2 = (evsB, eB)" by (cases s2)
  from v1 have A: "pending_low_stock eA p = pending_low_stock e p"
    "last_alert_time eA (LOW_STOCK, p) = last_alert_time e (LOW_STOCK, p)"
    "low_stock_confirm_intervals eA = low_stock_confirm_intervals e"
    "alert_cooldown_seconds eA = alert_cooldown_seconds e"
    by (simp_all add: view_def s1)
  from low_stock_body_confirmed[OF low _ _ _ b[unfolded s1 s2]] len cnt cool
  obtain a where a: "evsB = evsA @ [a]" "alert_type a = LOW_STOCK" "alert_product_name a = p"
    unfolding A by blast
  from v2 have "filter (\<lambda>a. alert_type a = LOW_STOCK \<and> alert_product_name a = p) alerts
       = filter (\<lambda>a. alert_type a = LOW_STOCK \<and> alert_product_name a = p) evsB"
    by (simp add: view_def s2)
  with a have "a \<in> set (filter (\<lambda>a. alert_type a = LOW_STOCK \<and> alert_product_name a = p) alerts)"
    by simp
  with a show ?thesis by auto
qed

section \<open>Severity of a low-stock alert\<close>

text \<open>
  C7. A call of \<open>evaluate\<close> on which a monitored product is at or below its threshold,
  its queue with the new observation holds at least \<open>low_stock_confirm_intervals\<close>
  entries, all at or below the threshold, and the cooldown allows the key, returns a
  low-stock alert for the product. Every low-stock alert returned is for a monitored
  product at or below its threshold and has severity \<open>CRITICAL\<close> if and only if the
  product's current count is 0, and \<open>WARNING\<close> otherwise.
\<close>

theorem low_stock_severity:
  assumes "evaluate e inventory fs ts = Inr (alerts, e')"
  shows "(map_of (low_stock_thresholds e) p = Some th \<and> dict_get inventory p 0 \<le> th
          \<and> low_stock_confirm_intervals e
              \<le> int (length (deque_append (low_stock_confirm_intervals e + 1)
                     (case pending_low_stock e p of None \<Rightarrow> [] | Some q \<Rightarrow> q)
                     (ts, dict_get inventory p 0)))
          \<and> list_all (\<lambda>(_, n). n \<le> th)
               (deque_append (low_stock_confirm_intervals e + 1)
                     (case pending_low_stock e p of None \<Rightarrow> [] | Some q \<Rightarrow> q)
                     (ts, dict_get inventory p 0))
          \<and> (\<forall>t. last_alert_time e (LOW_STOCK, p) = Some t \<longrightarrow> \<not> ts - t < alert_cooldown_seconds e)
          \<longrightarrow> (\<exists>a\<in>set alerts. alert_type a = LOW_STOCK \<and> alert_product_name a = p))
     \<and> (\<forall>a\<in>set alerts. alert_type a = LOW_STOCK \<longrightarrow>
          (severity a = CRITICAL \<longleftrightarrow> dict_get inventory (alert_product_name a) 0 = 0)
          \<and> (severity a = WARNING \<longleftrightarrow> dict_get inventory (alert_product_name a) 0 \<noteq> 0)
          \<and> (\<exists>th. map_of (low_stock_thresholds e) (alert_product_name a) = Some th
                \<and> dict_get inventory (alert_product_name a) 0 \<le> th
                \<and> metadata a = LowStockMetadata (dict_get inventory (alert_product_name a) 0) th
                     (if dict_get inventory (alert_product_name a) 0 = 0
                      then ''out_of_stock'' else ''low_stock'')))"
proof -
  from assms obtain A1 e1 A2 e2 where
    l1: "evaluate_low_stock e inventory ts = Inr (A1, e1)"
    and l2: "evaluate_expiration e1 fs ts = Inr (A2, e2)"
    and al: "alerts = A1 @ A2"
    by (auto simp: evaluate_def Let_def split: sum.splits prod.splits)
  have x: "alert_type a = EXPIRATION" if "a \<in> set A2" for a
    using expiration_loop_spaced[OF l2] that by blast
  have first: "\<exists>a\<in>set alerts. alert_type a = LOW_STOCK \<and> alert_product_name a = p"
    if "map_of (low_stock_thresholds e) p = Some th" "dict_get inventory p 0 \<le> th"
      "low_stock_confirm_intervals e
              \<le> int (length (deque_append (low_stock_confirm_intervals e + 1)
                     (case pending_low_stock e p of None \<Rightarrow> [] | Some q \<Rightarrow> q)
                     (ts, dict_get inventory p 0)))"
      "list_all (\<lambda>(_, n). n \<le> th)
               (deque_append (low_stock_confirm_intervals e + 1)
                     (case pending_low_stock e p of None \<Rightarrow> [] | Some q \<Rightarrow> q)
                     (ts, dict_get inventory p 0))"
      "\<forall>t. last_alert_time e (LOW_STOCK, p) = Some t \<longrightarrow> \<not> ts - t < alert_cooldown_seconds e"
    using low_stock_loop_confirmed[OF l1 that] by (auto simp: al)
  have second: "(severity a = CRITICAL \<longleftrightarrow> dict_get inventory (alert_product_name a) 0 = 0)
          \<and> (severity a = WARNING \<longleftrightarrow> dict_get inventory (alert_product_name a) 0 \<noteq> 0)
          \<and> (\<exists>th. map_of (low_stock_thresholds e) (alert_product_name a) = Some th
                \<and> dict_get inventory (alert_product_name a) 0 \<le> th
                \<and> metadata a = LowStockMetadata (dict_get inventory (alert_product_name a) 0) th
                     (if dict_get inventory (alert_product_name a) 0 = 0
                      then ''out_of_stock'' else ''low_stock''))"
    if "a \<in> set alerts" "alert_type a = LOW_STOCK" for a
  proof -
    from that x have "a \<in> set A1" by (auto simp: al)
    from low_stock_loop_alerts[OF l1 this] show ?thesis by auto
  qed
  from first second show ?thesis by blast
qed

theorem low_stock_severity_witness:
  "alert_replay (Some [(''mango'', 3)]) 2 2 10
     [([(''mango'', 2)], [(''mango'', \<lparr>is_expired = Some True, age_days = Some 6,
          expiration_days = Some 5, first_seen_utc = Some 0\<rparr>)], 0),
      ([(''mango'', 2)], [(''mango'', \<lparr>is_expired = Some True, age_days = Some 6,
          expiration_days = Some 5, first_seen_utc = Some 0\<rparr>)], 5),
      ([(''mango'', 0)], [(''mango'', \<lparr>is_expired = Some True, age_days = Some 6,
          expiration_days = Some 5, first_seen_utc = Some 0\<rparr>)], 10),
      ([(''mango'', 0)], [(''mango'', \<lparr>is_expired = Some True, age_days = Some 6,
          expiration_days = Some 5, first_seen_utc = Some 0\<rparr>)], 15)]
   = Inr [[],
       [\<lparr>alert_type = LOW_STOCK, alert_product_name = ''mango'', severity = WARNING,
         alert_timestamp_utc = 5, metadata = LowStockMetadata 2 3 ''low_stock''\<rparr>,
        \<lparr>alert_type = EXPIRATION, alert_product_name = ''mango'', severity = WARNING,
         alert_timestamp_utc = 5, metadata = ExpirationMetadata 6 5 (Some 0)\<rparr>],
       [],
       [\<lparr>alert_type = LOW_STOCK, alert_product_name = ''mango'', severity = CRITICAL,
         alert_timestamp_utc = 15, metadata = LowStockMetadata 0 3 ''out_of_stock''\<rparr>,
        \<lparr>alert_type = EXPIRATION, alert_product_name = ''mango'', severity = WARNING,
         alert_timestamp_utc = 15, metadata = ExpirationMetadata 6 5 (Some 0)\<rparr>]]
   \<and> (severity \<lparr>alert_type = LOW_STOCK, alert_product_name = ''mango'', severity = CRITICAL,
         alert_timestamp_utc = 15, metadata = LowStockMetadata 0 3 ''out_of_stock''\<rparr> = CRITICAL
        \<longleftrightarrow> dict_get [(''mango'', 0 :: int)] ''mango'' 0 = 0)
   \<and> (\<exists>a\<in>set [\<lparr>alert_type = LOW_STOCK, alert_product_name = ''mango'', severity = CRITICAL,
         alert_timestamp_utc = 15, metadata = LowStockMetadata 0 3 ''out_of_stock''\<rparr>,
        \<lparr>alert_type = EXPIRATION, alert_product_name = ''mango'', severity = WARNING,
         alert_timestamp_utc = 15, metadata = ExpirationMetadata 6 5 (Some 0)\<rparr>].
          alert_type a = LOW_STOCK \<and> alert_product_name a = ''mango'')"
proof -
  let ?fd = "\<lparr>is_expired = Some True, age_days = Some 6,
          expiration_days = Some 5, first_seen_utc = Some 0\<rparr>"
  let ?first = "[([(''mango'', 2 :: int)], [(''mango'', ?fd)], 0 :: real),
      ([(''mango'', 2)], [(''mango'', ?fd)], 5), ([(''mango'', 0)], [(''mango'', ?fd)], 10)]"
  let ?c = "\<lparr>alert_type = LOW_STOCK, alert_product_name = ''mango'', severity = CRITICAL,
         alert_timestamp_utc = 15, metadata = LowStockMetadata 0 3 ''out_of_stock''\<rparr>"
  let ?x = "\<lparr>alert_type = EXPIRATION, alert_product_name = ''mango'', severity = WARNING,
         alert_timestamp_utc = 15, metadata = ExpirationMetadata 6 5 (Some 0)\<rparr>"
  have run: "alert_replay (Some [(''mango'', 3)]) 2 2 10 (?first @ [([(''mango'', 0)], [(''mango'', ?fd)], 15)])
   = Inr [[],
       [\<lparr>alert_type = LOW_STOCK, alert_product_name = ''mango'', severity = WARNING,
         alert_timestamp_utc = 5, metadata = LowStockMetadata 2 3 ''low_stock''\<rparr>,
        \<lparr>alert_type = EXPIRATION, alert_product_name = ''mango'', severity = WARNING,
         alert_timestamp_utc = 5, metadata = ExpirationMetadata 6 5 (Some 0)\<rparr>],
       [], [?c, ?x]]"
    using two_alerts by simp
  have before: "map_sum id (\<lambda>e. (pending_low_stock e ''mango'', last_alert_time e (LOW_STOCK, ''mango'')))
      (alert_replay_state (Some [(''mango'', 3)]) 2 2 10 ?first) = Inr (Some [(10, 0)], Some 5)"
    by (simp add: alert_eval)
  from alert_replay_state_last_tick[OF run] obtain a1 a2 where
    a1: "alert_replay_state (Some [(''mango'', 3)]) 2 2 10 ?first = Inr a1"
    and ev: "evaluate a1 [(''mango'', 0)] [(''mango'', ?fd)] 15 = Inr ([?c, ?x], a2)"
    and cfg: "low_stock_thresholds a1 = [(''mango'', 3)]" "low_stock_confirm_intervals a1 = 2"
      "alert_cooldown_seconds a1 = 10"
    by auto
  from before a1 have st: "pending_low_stock a1 ''mango'' = Some [(10, 0)]"
    "last_alert_time a1 (LOW_STOCK, ''mango'') = Some 5"
    by simp_all
  from low_stock_severity[OF ev, of "''mango''" 3] cfg st run show ?thesis
    by (simp add: dict_get_def deque_append_def)
qed

lemma pending_grows: "map_sum id (\<lambda>e. map_option length (pending_decreases e ''mango''))
     (replay_state 2 1 3600 5
        [([(''mango'', 10)], 0), ([(''mango'', 9)], 5), ([(''mango'', 8)], 10),
         ([(''mango'', 7)], 15), ([(''mango'', 6)], 20), ([(''mango'', 5)], 25),
         ([(''mango'', 4)], 30)])
   = Inr (Some 4)"
  by (simp add: sales_eval)

lemma deque_append_length:
  assumes "int (length q) \<le> m"
  shows "int (length (deque_append m q x)) \<le> m"
  using assms by (auto simp: deque_append_def Let_def)

lemma low_stock_body_bounded:
  assumes "low_stock_body inventory ts item (alerts, e) = Inr (alerts', e')"
    and "\<forall>p q. pending_low_stock e p = Some q \<longrightarrow> int (length q) \<le> low_stock_confirm_intervals e + 1"
  shows "\<forall>p q. pending_low_stock e' p = Some q \<longrightarrow> int (length q) \<le> low_stock_confirm_intervals e' + 1"
proof -
  obtain pn th where item: "item = (pn, th)" by (cases item)
  have d: "int (length (deque_append (low_stock_confirm_intervals e + 1) q x))
            \<le> low_stock_confirm_intervals e + 1"
    if "pending_low_stock e pn = Some q \<or> (q = [] \<and> 0 \<le> low_stock_confirm_intervals e + 1)" for q x
    by (rule deque_append_length) (use that assms(2) in auto)
  have n: "0 \<le> low_stock_confirm_intervals e + 1" if "pending_low_stock e pn = Some q" for q
  proof -
    from assms(2) that have "int (length q) \<le> low_stock_confirm_intervals e + 1" by blast
    then show ?thesis by linarith
  qed
  from assms d n show ?thesis
    unfolding item
    by (auto simp: low_stock_body_def alert_body_defs
        split: option.splits sum.splits if_splits prod.splits bool.splits)
qed

lemma expiration_body_bounded:
  assumes "expiration_body ts item (alerts, e) = Inr (alerts', e')"
    and "\<forall>p q. pending_expiration e p = Some q \<longrightarrow> int (length q) \<le> expiration_confirm_intervals e + 1"
  shows "\<forall>p q. pending_expiration e' p = Some q \<longrightarrow> int (length q) \<le> expiration_confirm_intervals e' + 1"
proof -
  obtain pn fd where item: "item = (pn, fd)" by (cases item)
  have d: "int (length (deque_append (expiration_confirm_intervals e + 1) q x))
            \<le> expiration_confirm_intervals e + 1"
    if "pending_expiration e pn = Some q \<or> (q = [] \<and> 0 \<le> expiration_confirm_intervals e + 1)" for q x
    by (rule deque_append_length) (use that assms(2) in auto)
  have n: "0 \<le> expiration_confirm_intervals e + 1" if "pending_expiration e pn = Some q" for q
  proof -
    from assms(2) that have "int (length q) \<le> expiration_confirm_intervals e + 1" by blast
    then show ?thesis by linarith
  qed
  from assms d n show ?thesis
    unfolding item
    by (auto simp: expiration_body_def alert_body_defs
        split: option.splits sum.splits if_splits prod.splits bool.splits)
qed

lemma evaluate_bounded:
  assumes "evaluate e inventory fs ts = Inr (alerts, e')" and "queues_bounded e"
  shows "queues_bounded e'"
proof -
  from assms(1) obtain A1 e1 A2 e2 where
    l1: "evaluate_low_stock e inventory ts = Inr (A1, e1)"
    and l2: "evaluate_expiration e1 fs ts = Inr (A2, e2)"
    and e': "e' = fold process_alert (A1 @ A2) e2"
    by (auto simp: evaluate_def Let_def split: sum.splits prod.splits)
  have loop1: "for_each (low_stock_body inventory ts) (dict_items (low_stock_thresholds e)) ([], e)
       = Inr (A1, e1)"
    using l1 by (simp add: evaluate_low_stock_def)
  have loop2: "for_each (expiration_body ts) (dict_items fs) ([], e1) = Inr (A2, e2)"
    using l2 by (simp add: evaluate_expiration_def)
  have b1: "\<forall>p q. pending_low_stock (snd (A1, e1)) p = Some q
              \<longrightarrow> int (length q) \<le> low_stock_confirm_intervals (snd (A1, e1)) + 1"
  proof (rule for_each_invariant[OF loop1, where I = "\<lambda>s. \<forall>p q. pending_low_stock (snd s) p = Some q
              \<longrightarrow> int (length q) \<le> low_stock_confirm_intervals (snd s) + 1"])
    show "\<forall>p q. pending_low_stock (snd ([] :: alert list, e)) p = Some q
              \<longrightarrow> int (length q) \<le> low_stock_confirm_intervals (snd ([] :: alert list, e)) + 1"
      using assms(2) by (simp add: queues_bounded_def)
  next
    fix x and s t :: "alert list \<times> alert_engine"
    assume i: "\<forall>p q. pending_low_stock (snd s) p = Some q
              \<longrightarrow> int (length q) \<le> low_stock_confirm_intervals (snd s) + 1"
      and b: "low_stock_body inventory ts x s = Inr t"
    obtain a b0 where s: "s = (a, b0)" by (cases s)
    obtain c d where t: "t = (c, d)" by (cases t)
    from low_stock_body_bounded[OF b[unfolded s t]] i
    show "\<forall>p q. pending_low_stock (snd t) p = Some q
              \<longrightarrow> int (length q) \<le> low_stock_confirm_intervals (snd t) + 1"
      by (simp add: s t)
  qed
  have b2: "\<forall>p q. pending_expiration (snd (A2, e2)) p = Some q
              \<longrightarrow> int (length q) \<le> expiration_confirm_intervals (snd (A2, e2)) + 1"
  proof (rule for_each_invariant[OF loop2, where I = "\<lambda>s. \<forall>p q. pending_expiration (snd s) p = Some q
              \<longrightarrow> int (length q) \<le> expiration_confirm_intervals (snd s) + 1"])
    show "\<forall>p q. pending_expiration (snd ([] :: alert list, e1)) p = Some q
              \<longrightarrow> int (length q) \<le> expiration_confirm_intervals (snd ([] :: alert list, e1)) + 1"
      using assms(2) low_stock_loop_config[OF l1] by (simp add: queues_bounded_def)
  next
    fix x and s t :: "alert list \<times> alert_engine"
    assume i: "\<forall>p q. pending_expiration (snd s) p = Some q
              \<longrightarrow> int (length q) \<le> expiration_confirm_intervals (snd s) + 1"
      and b: "expiration_body ts x s = Inr t"
    obtain a b0 where s: "s = (a, b0)" by (cases s)
    obtain c d where t: "t = (c, d)" by (cases t)
    from expiration_body_bounded[OF b[unfolded s t]] i
    show "\<forall>p q. pending_expiration (snd t) p = Some q
              \<longrightarrow> int (length q) \<le> expiration_confirm_intervals (snd t) + 1"
      by (simp add: s t)
  qed
  from b1 b2 expiration_loop_config[OF l2] show ?thesis
    by (simp add: queues_bounded_def e' fold_process_alert_frame)
qed

lemma evaluate_all_bounded:
  assumes "evaluate_all e ticks = Inr (out, e')" and "queues_bounded e"
  shows "queues_bounded e'"
  using assms
proof (induction ticks arbitrary: e out)
  case Nil
  then show ?case by simp
next
  case (Cons tick rest)
  obtain inventory fs ts where tick: "tick = (inventory, fs, ts)" by (cases tick)
  from Cons.prems(1) obtain alerts e1 out' where
    st: "evaluate e inventory fs ts = Inr (alerts, e1)"
    and run: "evaluate_all e1 rest = Inr (out', e')"
    by (auto simp: tick split: sum.splits prod.splits)
  from Cons.IH[OF run evaluate_bounded[OF st Cons.prems(2)]] show ?case .
qed

lemma sales_pending_young:
  assumes step: "process_snapshot e inventory ts = Inr (evs, e')"
    and before: "snapshot_history e \<noteq> []" and ci: "1 \<le> confirm_intervals e"
    and q: "pending_decreases e' p = Some q"
  shows "q \<noteq> [] \<and> (\<forall>x\<in>set q. ts - fst x < snapshot_interval e * (real_of_int (confirm_intervals e) + 2))"
  using step
proof (cases rule: process_snapshot_cases)
  case first
  from deque_append_two[OF before ci, of "(ts, inventory)"] first(5) have False by linarith
  then show ?thesis ..
next
  case (detect evs1 e1 e2)
  from unattributed_fallback_cases[OF detect(4)] detect(5) q
  have "pending_decreases (cleanup_pending_decreases e1 ts) p = Some q"
    by (simp add: update_statistics_frame)
  with sales_loop_config[OF detect(3)] show ?thesis
    by (auto simp: cleanup_pending_decreases_def Let_def split: option.splits if_splits)
qed

section \<open>Size of the pending queues\<close>

text \<open>
  C4, as stated: after every tick of either engine a pending queue holds at most
  \<open>confirm_intervals + 1\<close> elements. With \<open>confirm_intervals = 2\<close> and a cooldown of an
  hour, a product that loses one unit per tick has four pending decreases after the
  seventh snapshot.
\<close>

theorem sales_pending_exceeds_capacity:
  "map_sum id (\<lambda>e. map_option length (pending_decreases e ''mango''))
     (replay_state 2 1 3600 5
        [([(''mango'', 10)], 0), ([(''mango'', 9)], 5), ([(''mango'', 8)], 10),
         ([(''mango'', 7)], 15), ([(''mango'', 6)], 20), ([(''mango'', 5)], 25),
         ([(''mango'', 4)], 30)])
   = Inr (Some 4)
   \<and> \<not> int 4 \<le> 2 + 1"
  using pending_grows by simp

text \<open>
  C4, amended. After any sequence of ticks of a fresh alert engine every low-stock deque
  holds at most \<open>low_stock_confirm_intervals + 1\<close> elements and every expiration deque at
  most \<open>expiration_confirm_intervals + 1\<close>; one call of \<open>evaluate\<close> keeps these bounds, and
  appending to a full deque drops its oldest element. The pending list of the sales
  engine has no capacity: after a tick that has a previous snapshot it is not empty and
  holds only decreases younger than \<open>snapshot_interval * (confirm_intervals + 2)\<close>.
\<close>

theorem pending_queue_bounds:
  "(alert_replay_state thresholds lci eci cd ticks = Inr ae \<longrightarrow>
      (\<forall>p q. pending_low_stock ae p = Some q \<longrightarrow> int (length q) \<le> lci + 1)
      \<and> (\<forall>p q. pending_expiration ae p = Some q \<longrightarrow> int (length q) \<le> eci + 1))
   \<and> (evaluate e inventory fs ts = Inr (alerts, e') \<and> queues_bounded e \<longrightarrow> queues_bounded e')
   \<and> (int (length dq) = maxlen \<and> 0 < maxlen \<longrightarrow> deque_append maxlen dq x = tl dq @ [x])
   \<and> (process_snapshot se inventory ts = Inr (evs, se') \<and> snapshot_history se \<noteq> []
        \<and> 1 \<le> confirm_intervals se \<and> pending_decreases se' pn = Some pq
      \<longrightarrow> pq \<noteq> []
          \<and> (\<forall>d\<in>set pq. ts - fst d < snapshot_interval se * (real_of_int (confirm_intervals se) + 2)))"
proof (intro conjI impI)
  assume a: "alert_replay_state thresholds lci eci cd ticks = Inr ae"
  then obtain e0 out where i: "AlertEngine_init thresholds lci eci cd False None = Inr e0"
    and r: "evaluate_all e0 ticks = Inr (out, ae)"
    by (auto simp: alert_replay_state_def split: sum.splits prod.splits)
  from i have f: "queues_bounded e0" "low_stock_confirm_intervals e0 = lci"
    "expiration_confirm_intervals e0 = eci"
    by (auto simp: AlertEngine_init_def queues_bounded_def split: option.splits)
  from evaluate_all_bounded[OF r f(1)] evaluate_all_config[OF r] f(2,3)
  show "(\<forall>p q. pending_low_stock ae p = Some q \<longrightarrow> int (length q) \<le> lci + 1)"
    and "(\<forall>p q. pending_expiration ae p = Some q \<longrightarrow> int (length q) \<le> eci + 1)"
    by (simp_all add: queues_bounded_def)
next
  assume "evaluate e inventory fs ts = Inr (alerts, e') \<and> queues_bounded e"
  then show "queues_bounded e'" using evaluate_bounded by blast
next
  assume "int (length dq) = maxlen \<and> 0 < maxlen"
  then show "deque_append maxlen dq x = tl dq @ [x]"
    by (cases dq) (auto simp: deque_append_def Let_def)
next
  assume a: "process_snapshot se inventory ts = Inr (evs, se') \<and> snapshot_history se \<noteq> []
        \<and> 1 \<le> confirm_intervals se \<and> pending_decreases se' pn = Some pq"
  with sales_pending_young[of se inventory ts evs se' pn pq]
  show "pq \<noteq> []"
    and "\<forall>d\<in>set pq. ts - fst d < snapshot_interval se * (real_of_int (confirm_intervals se) + 2)"
    by simp_all
qed

theorem pending_queue_bounds_witness:
  "map_sum id (\<lambda>e. pending_low_stock e ''mango'')
     (alert_replay_state (Some [(''mango'', 3)]) 2 2 3600
        [([(''mango'', 2)], [], 0), ([(''mango'', 2)], [], 5), ([(''mango'', 2)], [], 10),
         ([(''mango'', 2)], [], 15), ([(''mango'', 2)], [], 20), ([(''mango'', 2)], [], 25)])
   = Inr (Some [(15, 2), (20, 2), (25, 2)])
   \<and> int (length [(15 :: real, 2 :: int), (20, 2), (25, 2)]) \<le> 2 + 1
   \<and> deque_append 3 [(10 :: real, 2 :: int), (15, 2), (20, 2)] (25, 2) = [(15, 2), (20, 2), (25, 2)]
   \<and> map_sum id (\<lambda>e. pending_decreases e ''mango'')
     (replay_state 2 1 3600 5
        [([(''mango'', 10)], 0), ([(''mango'', 9)], 5), ([(''mango'', 8)], 10),
         ([(''mango'', 7)], 15), ([(''mango'', 6)], 20), ([(''mango'', 5)], 25),
         ([(''mango'', 4)], 30)])
   = Inr (Some [(15, - 1), (20, - 1), (25, - 1), (30, - 1)])
   \<and> (30 :: real) - fst (15 :: real, - 1 :: int) < 5 * (real_of_int 2 + 2)"
proof -
  let ?ticks = "[([(''mango'', 2 :: int)], [] :: freshness_data dict, 0 :: real),
         ([(''mango'', 2)], [], 5), ([(''mango'', 2)], [], 10),
         ([(''mango'', 2)], [], 15), ([(''mango'', 2)], [], 20), ([(''mango'', 2)], [], 25)]"
  let ?six = "[([(''mango'', 10 :: int)], 0 :: real), ([(''mango'', 9)], 5), ([(''mango'', 8)], 10),
         ([(''mango'', 7)], 15), ([(''mango'', 6)], 20), ([(''mango'', 5)], 25)]"
  have al: "map_sum id (\<lambda>e. pending_low_stock e ''mango'')
     (alert_replay_state (Some [(''mango'', 3)]) 2 2 3600 ?ticks)
      = Inr (Some [(15, 2), (20, 2), (25, 2)])"
    by (simp add: alert_eval)
  then obtain ae where ae: "alert_replay_state (Some [(''mango'', 3)]) 2 2 3600 ?ticks = Inr ae"
    and pl: "pending_low_stock ae ''mango'' = Some [(15, 2), (20, 2), (25, 2)]"
    by (cases "alert_replay_state (Some [(''mango'', 3)]) 2 2 3600 ?ticks") auto
  have run: "replay 2 1 3600 5 (?six @ [([(''mango'', 4)], 30)]) = Inr [[], [],
       [\<lparr>product_name = ''mango'', quantity_delta = 1, inventory_before = 9,
         inventory_after = 8, timestamp_utc = 10, validated = True\<rparr>], [], [], [], []]"
    by (simp add: sales_eval)
  have st: "map_sum id (\<lambda>e. pending_decreases e ''mango'')
     (replay_state 2 1 3600 5 (?six @ [([(''mango'', 4)], 30)]))
      = Inr (Some [(15, - 1), (20, - 1), (25, - 1), (30, - 1)])"
    by (simp add: sales_eval)
  have hist: "map_sum id snapshot_history (replay_state 2 1 3600 5 ?six)
      = Inr [(15, [(''mango'', 7)]), (20, [(''mango'', 6)]), (25, [(''mango'', 5)])]"
    by (simp add: sales_eval)
  from replay_state_last_tick[OF run] obtain e1 e2 where
    e1: "replay_state 2 1 3600 5 ?six = Inr e1"
    and step: "process_snapshot e1 [(''mango'', 4)] 30 = Inr ([], e2)"
    and e2: "replay_state 2 1 3600 5 (?six @ [([(''mango'', 4)], 30)]) = Inr e2"
    by auto
  from hist e1 have h: "snapshot_history e1 \<noteq> []" by auto
  from replay_state_config[OF e1] have c: "confirm_intervals e1 = 2" "snapshot_interval e1 = 5"
    by simp_all
  from st e2 have pq: "pending_decreases e2 ''mango'' = Some [(15, - 1), (20, - 1), (25, - 1), (30, - 1)]"
    by simp
  note inst = pending_queue_bounds[where thresholds = "Some [(''mango'', 3)]" and lci = 2
      and eci = 2 and cd = 3600 and ticks = ?ticks and ae = ae
      and dq = "[(10 :: real, 2 :: int), (15, 2), (20, 2)]" and maxlen = 3 and x = "(25, 2)"
      and se = e1 and inventory = "[(''mango'', 4)]" and ts = 30 and evs = "[]" and se' = e2
      and pn = "''mango''" and pq = "[(15, - 1), (20, - 1), (25, - 1), (30, - 1)]"]
  from inst ae pl have 1: "int (length [(15 :: real, 2 :: int), (20, 2), (25, 2)]) \<le> 2 + 1"
    by blast
  from inst have 2: "deque_append 3 [(10 :: real, 2 :: int), (15, 2), (20, 2)] (25, 2)
      = [(15, 2), (20, 2), (25, 2)]"
    by simp
  from inst step h c pq have 3: "(30 :: real) - fst (15 :: real, - 1 :: int) < 5 * (real_of_int 2 + 2)"
    by simp
  from al st 1 2 3 show ?thesis by simp
qed

section \<open>Construction\<close>










lemma process_all_append:
  "process_all e (xs @ ys) =
     (case process_all e xs of
        Inl err \<Rightarrow> Inl err
      | Inr (out, e1) \<Rightarrow>
          (case process_all e1 ys of
             Inl err \<Rightarrow> Inl err
           | Inr (out2, e2) \<Rightarrow> Inr (out @ out2, e2)))"
  by (induction xs arbitrary: e) (auto split: sum.splits prod.splits)

lemma process_all_length:
  "process_all e snaps = Inr (out, e') \<Longrightarrow> length out = length snaps"
  by (induction snaps arbitrary: e out) (auto split: sum.splits prod.splits)

lemma process_all_prefix:
  assumes "process_all e snaps = Inr (out, e')"
  shows "\<exists>e1. process_all e (take n snaps) = Inr (take n out, e1)"
proof -
  have "process_all e (take n snaps @ drop n snaps) = Inr (out, e')"
    using assms by simp
  then obtain o1 e1 o2 where a: "process_all e (take n snaps) = Inr (o1, e1)"
    and o: "out = o1 @ o2"
    unfolding process_all_append by (auto split: sum.splits prod.splits)
  from process_all_length[OF a] have "length o1 = length (take n snaps)" .
  moreover from process_all_length[OF assms] have "length out = length snaps" .
  ultimately have "take n out = o1" using o by (simp add: min_def split: if_splits)
  with a show ?thesis by blast
qed





















section \<open>Replay\<close>



end
